theory Spec2Isabelle
  imports Main "HOL-Library.Sublist"
begin

section \<open>Strings and the regular expressions of the ignore rules\<close>

text \<open>
  Paths, file names and messages are \<open>string\<close>s. \<open>includes_str s sub\<close> is
  \<^verbatim>\<open>s.includes(sub)\<close>: \<open>sub\<close> occurs in \<open>s\<close> as a contiguous substring.
\<close>

fun includes_str :: "string \<Rightarrow> string \<Rightarrow> bool" where
  "includes_str [] sub = (sub = [])"
| "includes_str (c # cs) sub = (prefix sub (c # cs) \<or> includes_str cs sub)"

text \<open>
  \<^verbatim>\<open>s.replace(pat, rep)\<close> with a string \<open>pat\<close>: only the first occurrence is replaced.
\<close>

fun replace :: "string \<Rightarrow> string \<Rightarrow> string \<Rightarrow> string" where
  "replace [] pat rep = (if pat = [] then rep else [])"
| "replace (c # cs) pat rep =
     (if prefix pat (c # cs) then rep @ drop (length pat) (c # cs)
      else c # replace cs pat rep)"

text \<open>
  The regular expressions built by \<^verbatim>\<open>new RegExp(pattern.replace('*', '.*'))\<close> from the
  configured patterns use three forms only: a literal character, the dot, and an atom
  followed by the star. \<open>RegExp\<close> parses that fragment. The dot matches every character
  except a line terminator.
\<close>

datatype atom = AnyChar | Lit char

datatype item = One atom | Star atom

definition parse_atom :: "char \<Rightarrow> atom" where
  "parse_atom c = (if c = CHR ''.'' then AnyChar else Lit c)"

fun RegExp :: "string \<Rightarrow> item list" where
  "RegExp [] = []"
| "RegExp [c] = [One (parse_atom c)]"
| "RegExp (c # d # cs) =
     (if d = CHR ''*'' then Star (parse_atom c) # RegExp cs
      else One (parse_atom c) # RegExp (d # cs))"

definition line_terminator :: "char \<Rightarrow> bool" where
  "line_terminator c = (c = CHR 0x0A \<or> c = CHR 0x0D)"

fun atom_ok :: "atom \<Rightarrow> char \<Rightarrow> bool" where
  "atom_ok AnyChar c = (\<not> line_terminator c)"
| "atom_ok (Lit a) c = (c = a)"

text \<open>\<open>match_here r s\<close>: the expression \<open>r\<close> matches a prefix of \<open>s\<close>.\<close>

fun match_here :: "item list \<Rightarrow> string \<Rightarrow> bool" where
  "match_here [] s = True"
| "match_here (One a # r) [] = False"
| "match_here (One a # r) (c # cs) = (atom_ok a c \<and> match_here r cs)"
| "match_here (Star a # r) [] = match_here r []"
| "match_here (Star a # r) (c # cs) =
     ((atom_ok a c \<and> match_here (Star a # r) cs) \<or> match_here r (c # cs))"

text \<open>\<^verbatim>\<open>regex.test(path)\<close> without flags: a match may start at any position.\<close>

fun regex_test :: "item list \<Rightarrow> string \<Rightarrow> bool" where
  "regex_test r [] = match_here r []"
| "regex_test r (c # cs) = (match_here r (c # cs) \<or> regex_test r cs)"

section \<open>Pattern matcher\<close>

definition IGNORED_PATTERNS :: "string list" where
  "IGNORED_PATTERNS =
     [''node_modules'', ''dist'', ''.git'', ''.nx'', ''tmp'', ''.angular'', ''.cache'',
      ''*.spec.ts'', ''*.spec.js'', ''*.test.ts'', ''*.test.js'', ''.DS_Store'']"

definition pattern_matches :: "string \<Rightarrow> string \<Rightarrow> bool" where
  "pattern_matches path pattern =
     (if includes_str pattern ''*''
      then regex_test (RegExp (replace pattern ''*'' ''.*'')) path
      else includes_str path pattern)"

definition shouldIgnore :: "string \<Rightarrow> bool" where
  "shouldIgnore path = list_ex (pattern_matches path) IGNORED_PATTERNS"

text \<open>
  The rule as the specification words it, for comparison: a pattern with a wildcard is a
  glob with one \<open>*\<close>, every other character standing for itself, matched anywhere in
  the path; a pattern without one is a substring test. \<open>occurs_then pre post s\<close>: \<open>pre\<close>
  occurs in \<open>s\<close> and \<open>post\<close> occurs somewhere behind it.
\<close>

fun occurs_then :: "string \<Rightarrow> string \<Rightarrow> string \<Rightarrow> bool" where
  "occurs_then pre post [] = (pre = [] \<and> post = [])"
| "occurs_then pre post (c # cs) =
     ((prefix pre (c # cs) \<and> includes_str (drop (length pre) (c # cs)) post)
      \<or> occurs_then pre post cs)"

definition spec_glob_match :: "string \<Rightarrow> string \<Rightarrow> bool" where
  "spec_glob_match pattern path =
     occurs_then (takeWhile (\<lambda>c. c \<noteq> CHR ''*'') pattern)
                 (tl (dropWhile (\<lambda>c. c \<noteq> CHR ''*'') pattern)) path"

definition spec_rule_matches :: "string \<Rightarrow> string \<Rightarrow> bool" where
  "spec_rule_matches path pattern =
     (if includes_str pattern ''*'' then spec_glob_match pattern path
      else includes_str path pattern)"

definition spec_shouldIgnore :: "string \<Rightarrow> bool" where
  "spec_shouldIgnore path = list_ex (spec_rule_matches path) IGNORED_PATTERNS"

section \<open>Values of the runtime\<close>

text \<open>
  A thrown JavaScript error: the \<open>message\<close> of every \<^verbatim>\<open>Error\<close>, and the fields that
  \<^verbatim>\<open>execSync\<close> adds to the errors it throws (absent on a plain \<^verbatim>\<open>new Error(..)\<close>).
\<close>

datatype js_code = CodeUndefined | CodeNum int | CodeStr string

record js_error =
  message :: string
  stdout :: "string option"
  stderr :: "string option"
  code :: js_code

definition Error :: "string \<Rightarrow> js_error" where
  "Error m = \<lparr>message = m, stdout = None, stderr = None, code = CodeUndefined\<rparr>"

text \<open>\<^verbatim>\<open>error.toString()\<close> of an \<^verbatim>\<open>Error\<close>, and \<^verbatim>\<open>a || b\<close> on strings.\<close>

definition toString :: "js_error \<Rightarrow> string" where
  "toString e = (if message e = [] then ''Error'' else ''Error: '' @ message e)"

definition or_else :: "string \<Rightarrow> string \<Rightarrow> string" where
  "or_else a b = (if a = [] then b else a)"

text \<open>
  What an external command does once \<^verbatim>\<open>execSync\<close> runs it: it returns the captured
  output, or it throws (non-zero exit status or timeout alike).
\<close>

datatype exec_result = Done string | Threw js_error

datatype command = Build | Unpublish | Publish

record pipeline_env =
  build_result :: exec_result
  unpublish_result :: exec_result
  publish_result :: exec_result

datatype ping_result = Status nat | ConnError

datatype stream = Out | Err

text \<open>
  The console lines of the program, one constructor per line of the source. The time
  stamp that \<^verbatim>\<open>formatTime()\<close> puts into some of them is left out.
\<close>

datatype msg =
    MStartingVerdaccio | MVerdaccioProcessError js_error | MVerdaccioReady
  | MErrorStartingVerdaccio js_error
  | MCleaning | MOutput string | MCleanupCompleted | MStdout string | MStderr string
  | MUnpublishExitCode js_code | MNoPreviousPackages
  | MPublishing | MPublished | MAlreadyExist | MPublishWarnings | MPublishFailed string
  | MBuilding | MBuildCompleted | MBuildFailed string
  | MRebuildInProgress | MRebuilding | MRebuildComplete | MRebuildFailed js_error
  | MStartingWatchMode | MWatchReady | MFatal js_error | MShuttingDown
  | MFileChanged string | MFailedToWatch string js_error | MWatching nat

text \<open>
  The only closure ever handed to \<^verbatim>\<open>debounce\<close>:
  \<^verbatim>\<open>() => { if (!isRebuilding) { rebuild(); } }\<close>.
\<close>

datatype action = GuardedRebuild

text \<open>What the program does to the outside world, in the order it does it.\<close>

datatype effect =
    Console stream msg
  | ExecSync command
  | SpawnRegistry
  | Kill
  | Exit int
  | Sleep nat
  | Ping
  | WatchDir string
  | SetTimeout nat nat
  | ClearTimeout nat
  | Fire nat nat

datatype proc_status = Running | Exited int | Uncaught js_error

datatype child_process = ChildProcess (killed: bool)

text \<open>
  The three module variables of the source, and the part of the Node runtime they live
  in: the armed timers \<open>(handle, due time, callback)\<close>, the next fresh timer handle,
  the clock in milliseconds, the effects so far and whether the process still runs.
\<close>

record state =
  verdaccioProcess :: "child_process option"
  isRebuilding :: bool
  rebuildTimer :: "nat option"
  timers :: "(nat \<times> nat \<times> action) list"
  next_timer :: nat
  clock :: nat
  trace :: "effect list"
  status :: proc_status

text \<open>
  A statement either returns, throws, or ends the process (\<open>Halt\<close>: \<^verbatim>\<open>process.exit\<close>, or
  an exception that nothing catches); after \<open>Halt\<close> nothing runs, not even \<^verbatim>\<open>finally\<close>.
\<close>

datatype 'a outcome = Return 'a | Throw js_error | Halt

type_synonym 'a io = "state \<Rightarrow> 'a outcome \<times> state"

definition ret :: "'a \<Rightarrow> 'a io" where
  "ret a s = (Return a, s)"

definition throw :: "js_error \<Rightarrow> 'a io" where
  "throw e s = (Throw e, s)"

definition bind :: "'a io \<Rightarrow> ('a \<Rightarrow> 'b io) \<Rightarrow> 'b io" where
  "bind m f s =
     (case m s of
        (Return a, s') \<Rightarrow> f a s'
      | (Throw e, s') \<Rightarrow> (Throw e, s')
      | (Halt, s') \<Rightarrow> (Halt, s'))"

definition seq :: "'a io \<Rightarrow> 'b io \<Rightarrow> 'b io" where
  "seq m k = bind m (\<lambda>_. k)"

definition try_catch :: "'a io \<Rightarrow> (js_error \<Rightarrow> 'a io) \<Rightarrow> 'a io" where
  "try_catch m h s =
     (case m s of
        (Throw e, s') \<Rightarrow> h e s'
      | (Return a, s') \<Rightarrow> (Return a, s')
      | (Halt, s') \<Rightarrow> (Halt, s'))"

definition try_finally :: "'a io \<Rightarrow> unit io \<Rightarrow> 'a io" where
  "try_finally m f s =
     (case m s of
        (Halt, s') \<Rightarrow> (Halt, s')
      | (r, s') \<Rightarrow>
          (case f s' of
             (Return _, s'') \<Rightarrow> (r, s'')
           | (Throw e, s'') \<Rightarrow> (Throw e, s'')
           | (Halt, s'') \<Rightarrow> (Halt, s'')))"

definition emit :: "effect \<Rightarrow> state \<Rightarrow> state" where
  "emit e s = s\<lparr>trace := trace s @ [e]\<rparr>"

definition console_log :: "msg \<Rightarrow> unit io" where
  "console_log m s = (Return (), emit (Console Out m) s)"

definition console_error :: "msg \<Rightarrow> unit io" where
  "console_error m s = (Return (), emit (Console Err m) s)"

definition execSync :: "command \<Rightarrow> exec_result \<Rightarrow> string io" where
  "execSync c r s =
     (case r of
        Done output \<Rightarrow> (Return output, emit (ExecSync c) s)
      | Threw e \<Rightarrow> (Throw e, emit (ExecSync c) s))"

definition process_exit :: "int \<Rightarrow> unit io" where
  "process_exit c s = (Halt, (emit (Exit c) s)\<lparr>status := Exited c\<rparr>)"

text \<open>
  An exception that leaves a listener or a timer callback has no handler: Node reports
  it and ends the process.
\<close>

definition uncaught :: "unit io \<Rightarrow> unit io" where
  "uncaught m s =
     (case m s of
        (Throw e, s') \<Rightarrow> (Halt, s'\<lparr>status := Uncaught e\<rparr>)
      | (Return a, s') \<Rightarrow> (Return a, s')
      | (Halt, s') \<Rightarrow> (Halt, s'))"

definition if_then :: "bool \<Rightarrow> unit io \<Rightarrow> unit io" where
  "if_then b m = (if b then m else ret ())"

text \<open>\<^verbatim>\<open>if (v) { f(v) }\<close> on a field that is a string or undefined.\<close>

definition if_truthy :: "string option \<Rightarrow> (string \<Rightarrow> unit io) \<Rightarrow> unit io" where
  "if_truthy v f = (case v of None \<Rightarrow> ret () | Some x \<Rightarrow> (if x = [] then ret () else f x))"

section \<open>Registry supervisor: shutdown\<close>

definition killChildProcesses :: "unit io" where
  "killChildProcesses s =
     (case verdaccioProcess s of
        None \<Rightarrow> (Return (), s)
      | Some p \<Rightarrow> (Return (), (emit Kill s)\<lparr>verdaccioProcess := Some (ChildProcess True)\<rparr>))"

section \<open>Pipeline runner\<close>

definition cleanRegistry :: "exec_result \<Rightarrow> unit io" where
  "cleanRegistry r =
     try_catch
       (seq (console_log MCleaning)
         (bind (execSync Unpublish r) (\<lambda>output.
           seq (if_then (output \<noteq> []) (console_log (MOutput output)))
               (console_log MCleanupCompleted))))
       (\<lambda>error.
          seq (if_truthy (stdout error) (\<lambda>x. console_log (MStdout x)))
         (seq (if_truthy (stderr error) (\<lambda>x. console_log (MStderr x)))
         (seq (if_then (code error \<noteq> CodeNum 0) (console_log (MUnpublishExitCode (code error))))
              (console_log MNoPreviousPackages))))"

definition publishPackages :: "exec_result \<Rightarrow> unit io" where
  "publishPackages r =
     try_catch
       (seq (console_log MPublishing)
         (seq (execSync Publish r)
              (console_log MPublished)))
       (\<lambda>error.
          let errorMsg = or_else (message error) (or_else (toString error) [])
          in if includes_str errorMsg ''cannot publish over the previously published versions''
                \<or> includes_str errorMsg ''You cannot publish over''
             then console_log MAlreadyExist
             else console_error MPublishWarnings)"

definition buildLibraries :: "exec_result \<Rightarrow> unit io" where
  "buildLibraries r =
     try_catch
       (seq (console_log MBuilding)
         (seq (execSync Build r)
              (console_log MBuildCompleted)))
       (\<lambda>error.
          seq (console_error (MBuildFailed (message error)))
              (throw (Error (''Build failed: '' @ message error))))"

definition set_isRebuilding :: "bool \<Rightarrow> unit io" where
  "set_isRebuilding b s = (Return (), s\<lparr>isRebuilding := b\<rparr>)"

definition rebuild :: "pipeline_env \<Rightarrow> unit io" where
  "rebuild env s =
     (if isRebuilding s then console_log MRebuildInProgress s
      else
        seq (set_isRebuilding True)
       (seq (console_log MRebuilding)
            (try_finally
              (try_catch
                (seq (buildLibraries (build_result env))
                (seq (cleanRegistry (unpublish_result env))
                (seq (publishPackages (publish_result env))
                     (console_log MRebuildComplete))))
                (\<lambda>error. console_error (MRebuildFailed error)))
              (set_isRebuilding False))) s)"

text \<open>The \<^verbatim>\<open>try ... catch ... finally\<close> statement of \<open>rebuild\<close>, on its own.\<close>

definition rebuild_try :: "pipeline_env \<Rightarrow> unit io" where
  "rebuild_try env =
     try_finally
       (try_catch
         (seq (buildLibraries (build_result env))
         (seq (cleanRegistry (unpublish_result env))
         (seq (publishPackages (publish_result env))
              (console_log MRebuildComplete))))
         (\<lambda>error. console_error (MRebuildFailed error)))
       (set_isRebuilding False)"

section \<open>Debouncer\<close>

definition clearTimeout :: "nat \<Rightarrow> unit io" where
  "clearTimeout h s =
     (Return (), (emit (ClearTimeout h) s)\<lparr>timers := filter (\<lambda>tm. fst tm \<noteq> h) (timers s)\<rparr>)"

definition setTimeout :: "action \<Rightarrow> nat \<Rightarrow> nat io" where
  "setTimeout func delay s =
     (Return (next_timer s),
      (emit (SetTimeout (next_timer s) (clock s + delay)) s)
        \<lparr>timers := timers s @ [(next_timer s, clock s + delay, func)],
         next_timer := Suc (next_timer s)\<rparr>)"

definition set_rebuildTimer :: "nat option \<Rightarrow> unit io" where
  "set_rebuildTimer v s = (Return (), s\<lparr>rebuildTimer := v\<rparr>)"

definition debounce :: "action \<Rightarrow> nat \<Rightarrow> unit io" where
  "debounce func delay =
     seq (\<lambda>s. case rebuildTimer s of Some h \<Rightarrow> clearTimeout h s | None \<Rightarrow> ret () s)
         (bind (setTimeout func delay) (\<lambda>h. set_rebuildTimer (Some h)))"

section \<open>Recursive watcher\<close>

text \<open>
  What the walk finds at a path: a file (\<^verbatim>\<open>readdir\<close> rejects), a directory with its
  entries, a directory whose listing is rejected with the given error, or a directory
  that is gone by the time \<^verbatim>\<open>watch\<close> is called on it (\<^verbatim>\<open>watch\<close> throws).
  \<open>join a b\<close> stands for \<^verbatim>\<open>path.join(a, b)\<close> on two plain segments.
\<close>

datatype fsnode =
    File
  | Dir "(string \<times> fsnode) list"
  | Unreadable js_error
  | Vanished js_error

fun isDirectory :: "fsnode \<Rightarrow> bool" where
  "isDirectory File = False"
| "isDirectory (Dir entries) = True"
| "isDirectory (Unreadable e) = True"
| "isDirectory (Vanished e) = True"

definition join :: "string \<Rightarrow> string \<Rightarrow> string" where
  "join a b = a @ ''/'' @ b"

definition logChange :: "string \<Rightarrow> unit io" where
  "logChange filepath = console_log (MFileChanged filepath)"

text \<open>The listener that \<open>watchDirectory\<close> registers for \<open>dir\<close>.\<close>

definition on_change :: "string \<Rightarrow> string option \<Rightarrow> unit io" where
  "on_change dir filename =
     (case filename of
        None \<Rightarrow> ret ()
      | Some f \<Rightarrow>
          if f = [] \<or> shouldIgnore f then ret ()
          else seq (logChange (join dir f)) (debounce GuardedRebuild 1000))"

fun watchDirectory ::
    "string \<Rightarrow> fsnode \<Rightarrow> string set \<times> state \<Rightarrow> unit outcome \<times> string set \<times> state"
and watchEntries ::
    "string \<Rightarrow> (string \<times> fsnode) list \<Rightarrow> string set \<times> state
       \<Rightarrow> unit outcome \<times> string set \<times> state"
where
  "watchDirectory dir node (watchers, s) =
     (if dir \<in> watchers \<or> shouldIgnore dir then (Return (), watchers, s)
      else
        (case node of
           Vanished e \<Rightarrow> (Throw e, insert dir watchers, s)
         | File \<Rightarrow>
             (Return (), insert dir watchers,
              emit (Console Err (MFailedToWatch dir (Error ''ENOTDIR''))) (emit (WatchDir dir) s))
         | Unreadable e \<Rightarrow>
             (Return (), insert dir watchers,
              emit (Console Err (MFailedToWatch dir e)) (emit (WatchDir dir) s))
         | Dir entries \<Rightarrow>
             (case watchEntries dir entries (insert dir watchers, emit (WatchDir dir) s) of
                (Throw e, watchers', s') \<Rightarrow>
                  (Return (), watchers', emit (Console Err (MFailedToWatch dir e)) s')
              | (Return u, watchers', s') \<Rightarrow> (Return u, watchers', s')
              | (Halt, watchers', s') \<Rightarrow> (Halt, watchers', s'))))"
| "watchEntries dir [] ws = (Return (), ws)"
| "watchEntries dir (entry # rest) ws =
     (if isDirectory (snd entry) \<and> \<not> shouldIgnore (fst entry)
      then (case watchDirectory (join dir (fst entry)) (snd entry) ws of
              (Return u, ws') \<Rightarrow> watchEntries dir rest ws'
            | (Throw e, ws') \<Rightarrow> (Throw e, ws')
            | (Halt, ws') \<Rightarrow> (Halt, ws'))
      else watchEntries dir rest ws)"

fun watchAll ::
    "(string \<Rightarrow> fsnode) \<Rightarrow> string list \<Rightarrow> string set \<times> state
       \<Rightarrow> unit outcome \<times> string set \<times> state" where
  "watchAll fs [] ws = (Return (), ws)"
| "watchAll fs (dir # dirs) ws =
     (case watchDirectory dir (fs dir) ws of
        (Return u, ws') \<Rightarrow> watchAll fs dirs ws'
      | (Throw e, ws') \<Rightarrow> (Throw e, ws')
      | (Halt, ws') \<Rightarrow> (Halt, ws'))"

definition setupFileWatchers :: "(string \<Rightarrow> fsnode) \<Rightarrow> string list \<Rightarrow> unit io" where
  "setupFileWatchers fs directories s =
     (case watchAll fs directories ({}, s) of
        (Return u, watchers, s') \<Rightarrow> console_log (MWatching (card watchers)) s'
      | (Throw e, watchers, s') \<Rightarrow> (Throw e, s')
      | (Halt, watchers, s') \<Rightarrow> (Halt, s'))"

section \<open>Registry supervisor: startup\<close>

definition maxAttempts :: nat where
  "maxAttempts = 30"

definition spawn :: "unit io" where
  "spawn s = (Return (), (emit SpawnRegistry s)\<lparr>verdaccioProcess := Some (ChildProcess False)\<rparr>)"

text \<open>The listener for the child's \<^verbatim>\<open>'error'\<close> event in \<^verbatim>\<open>src/tools/watch.ts\<close>.\<close>

definition on_error :: "js_error \<Rightarrow> unit io" where
  "on_error error =
     seq (console_error (MVerdaccioProcessError error))
         (if_then (\<not> includes_str (message error) ''EADDRINUSE'') (throw error))"

definition sleep :: "nat \<Rightarrow> unit io" where
  "sleep ms s = (Return (), (emit (Sleep ms) s)\<lparr>clock := clock s + ms\<rparr>)"

text \<open>
  One request to \<^verbatim>\<open>http://localhost:4873/-/ping\<close>; it resolves to whether the answer
  had status 200, and to false on a connection error.
\<close>

definition get_ping :: "ping_result \<Rightarrow> bool io" where
  "get_ping r s = (Return (r = Status 200), emit Ping s)"

text \<open>
  The \<^verbatim>\<open>while (attempts < maxAttempts)\<close> loop; \<open>pings k\<close> is what the registry answers
  to the \<open>k\<close>-th request.
\<close>

function poll :: "(nat \<Rightarrow> ping_result) \<Rightarrow> nat \<Rightarrow> unit io" where
  "poll pings attempts s =
     (if attempts < maxAttempts
      then (case seq (sleep 1000) (get_ping (pings (Suc attempts))) s of
              (Return isReady, s') \<Rightarrow>
                if isReady then console_log MVerdaccioReady s'
                else poll pings (Suc attempts) s'
            | (Throw e, s') \<Rightarrow> poll pings (Suc attempts) s'
            | (Halt, s') \<Rightarrow> (Halt, s'))
      else throw (Error ''Verdaccio failed to start'') s)"
  by pat_completeness auto
termination
  by (relation "measure (\<lambda>(pings, attempts, s). maxAttempts - attempts)") auto

declare poll.simps [simp del]

text \<open>
  \<open>spawn_error\<close> is the error, if any, that the child process reports; it reaches the
  listener while the function waits for its first request.
\<close>

definition startVerdaccio :: "js_error option \<Rightarrow> (nat \<Rightarrow> ping_result) \<Rightarrow> unit io" where
  "startVerdaccio spawn_error pings =
     seq (console_log MStartingVerdaccio)
    (seq spawn
    (seq (case spawn_error of None \<Rightarrow> ret () | Some e \<Rightarrow> uncaught (on_error e))
         (poll pings 0)))"

section \<open>Daemon controller\<close>

text \<open>
  \<open>MWatchReady\<close> stands for the closing \<^verbatim>\<open>console.info\<close> lines; the function then waits
  on a promise that never resolves, which hands control to the event loop.
\<close>

definition startWatchMode ::
    "string \<Rightarrow> (string \<Rightarrow> fsnode) \<Rightarrow> js_error option \<Rightarrow> (nat \<Rightarrow> ping_result)
       \<Rightarrow> pipeline_env \<Rightarrow> unit io" where
  "startWatchMode cwd fs spawn_error pings env =
     try_catch
       (seq (console_log MStartingWatchMode)
       (seq (startVerdaccio spawn_error pings)
       (seq (buildLibraries (build_result env))
       (seq (cleanRegistry (unpublish_result env))
       (seq (publishPackages (publish_result env))
       (seq (setupFileWatchers fs [join cwd ''libs''])
            (console_log MWatchReady)))))))
       (\<lambda>error.
          seq (console_error (MFatal error))
         (seq killChildProcesses
              (process_exit 1)))"

definition on_sigint :: "unit io" where
  "on_sigint =
     seq (console_log MShuttingDown)
    (seq killChildProcesses
         (process_exit 0))"

section \<open>The standalone boot script of \<^verbatim>\<open>src/unnamed/part_001\<close>\<close>

text \<open>
  The first script of \<^verbatim>\<open>part_001\<close> starts the registry and runs build, unpublish and
  publish once; it has no watcher. Its health check re-arms a timer instead of looping.
\<close>

function checkHealth :: "(nat \<Rightarrow> ping_result) \<Rightarrow> nat \<Rightarrow> nat \<Rightarrow> unit io" where
  "checkHealth pings max_attempts attempts s =
     (case seq (sleep 1000) (get_ping (pings (Suc attempts))) s of
        (Return ok, s') \<Rightarrow>
          if ok then console_log MVerdaccioReady s'
          else if Suc attempts \<ge> max_attempts
               then throw (Error ''Verdaccio failed to start'') s'
               else checkHealth pings max_attempts (Suc attempts) s'
      | (Throw e, s') \<Rightarrow> (Throw e, s')
      | (Halt, s') \<Rightarrow> (Halt, s'))"
  by pat_completeness auto
termination
  by (relation "measure (\<lambda>(pings, max_attempts, attempts, s). max_attempts - attempts)") auto

declare checkHealth.simps [simp del]

definition waitForVerdaccio :: "nat \<Rightarrow> (nat \<Rightarrow> ping_result) \<Rightarrow> unit io" where
  "waitForVerdaccio max_attempts pings = checkHealth pings max_attempts 0"

text \<open>
  Here the \<^verbatim>\<open>'error'\<close> listener calls \<^verbatim>\<open>reject(error)\<close>, which settles the promise that
  \<open>watch\<close> awaits.
\<close>

definition startVerdaccio_part001 ::
    "js_error option \<Rightarrow> (nat \<Rightarrow> ping_result) \<Rightarrow> unit io" where
  "startVerdaccio_part001 spawn_error pings =
     (let waiting =
            try_catch (waitForVerdaccio maxAttempts pings)
              (\<lambda>error. seq (console_error (MErrorStartingVerdaccio error)) (throw error))
      in seq (console_log MStartingVerdaccio)
        (seq spawn
          (case spawn_error of
             None \<Rightarrow> waiting
           | Some e \<Rightarrow>
               seq (console_error (MVerdaccioProcessError e))
                   (if \<not> includes_str (message e) ''EADDRINUSE'' then throw e else waiting))))"

definition unpublish :: "exec_result \<Rightarrow> unit io" where
  "unpublish r =
     try_catch
       (seq (console_log MCleaning)
         (seq (execSync Unpublish r)
              (console_log MCleanupCompleted)))
       (\<lambda>error. console_log MNoPreviousPackages)"

definition publish :: "exec_result \<Rightarrow> unit io" where
  "publish r =
     try_catch
       (seq (console_log MPublishing)
         (seq (execSync Publish r)
              (console_log MPublished)))
       (\<lambda>error.
          seq (console_error (MPublishFailed (message error)))
              (throw (Error (''Publish failed: '' @ message error))))"

definition buildLibs :: "exec_result \<Rightarrow> unit io" where
  "buildLibs r =
     try_catch
       (seq (console_log MBuilding)
         (seq (execSync Build r)
              (console_log MBuildCompleted)))
       (\<lambda>error.
          seq (console_error (MBuildFailed (message error)))
              (throw (Error (''Build failed: '' @ message error))))"

definition watch :: "js_error option \<Rightarrow> (nat \<Rightarrow> ping_result) \<Rightarrow> pipeline_env \<Rightarrow> unit io" where
  "watch spawn_error pings env =
     try_catch
       (seq (console_log MStartingWatchMode)
       (seq (startVerdaccio_part001 spawn_error pings)
       (seq (buildLibs (build_result env))
       (seq (unpublish (unpublish_result env))
       (seq (publish (publish_result env))
            (console_log MWatchReady))))))
       (\<lambda>error.
          seq (console_error (MFatal error))
         (seq killChildProcesses
              (process_exit 1)))"

section \<open>Event loop\<close>

text \<open>
  Callbacks run one at a time. An event is a call of a registered listener: the watch
  listener of a directory with the file name it is given, or the interrupt handler.
  \<open>world t\<close> is what the three external commands do when they are run at time \<open>t\<close>.
\<close>

datatype event = FileChange string "string option" | Sigint

definition run_action :: "(nat \<Rightarrow> pipeline_env) \<Rightarrow> action \<Rightarrow> unit io" where
  "run_action world a s =
     (case a of GuardedRebuild \<Rightarrow> if_then (\<not> isRebuilding s) (rebuild (world (clock s))) s)"

definition callback :: "unit io \<Rightarrow> state \<Rightarrow> state" where
  "callback m s = (if status s = Running then snd (uncaught m s) else s)"

fun earliest :: "(nat \<times> nat \<times> action) list \<Rightarrow> (nat \<times> nat \<times> action) option" where
  "earliest [] = None"
| "earliest (x # xs) =
     (case earliest xs of
        None \<Rightarrow> Some x
      | Some y \<Rightarrow> if fst (snd x) \<le> fst (snd y) then Some x else Some y)"

definition next_due :: "nat \<Rightarrow> state \<Rightarrow> (nat \<times> nat \<times> action) option" where
  "next_due t s =
     (if status s = Running then earliest (filter (\<lambda>tm. fst (snd tm) \<le> t) (timers s))
      else None)"

definition fire :: "(nat \<Rightarrow> pipeline_env) \<Rightarrow> nat \<times> nat \<times> action \<Rightarrow> state \<Rightarrow> state" where
  "fire world tm s =
     (let now = max (clock s) (fst (snd tm))
      in callback (run_action world (snd (snd tm)))
           ((emit (Fire (fst tm) now) s)
              \<lparr>timers := filter (\<lambda>x. fst x \<noteq> fst tm) (timers s), clock := now\<rparr>))"

text \<open>
  Firing a timer disarms it, and the pipeline arms none, so the armed timers shrink:
  this is what makes \<open>advance\<close> terminate.
\<close>

lemmas io_defs = bind_def seq_def try_catch_def try_finally_def ret_def throw_def
  console_log_def console_error_def execSync_def emit_def if_then_def if_truthy_def

lemma rebuild_timers: "timers (snd (rebuild env s)) = timers s"
  by (cases "build_result env"; cases "unpublish_result env"; cases "publish_result env")
     (simp_all add: rebuild_def buildLibraries_def cleanRegistry_def publishPackages_def
        set_isRebuilding_def io_defs Let_def split: option.splits)

lemma earliest_mem: "earliest xs = Some x \<Longrightarrow> x \<in> set xs"
  by (induction xs arbitrary: x) (auto split: option.splits if_splits)

lemma next_due_mem: "next_due t s = Some tm \<Longrightarrow> tm \<in> set (timers s)"
  by (auto simp: next_due_def split: if_splits dest: earliest_mem)

lemma run_action_timers: "timers (snd (run_action world a s)) = timers s"
  by (cases a) (simp add: run_action_def if_then_def ret_def rebuild_timers)

lemma callback_timers:
  "(\<And>s. timers (snd (m s)) = timers s) \<Longrightarrow> timers (callback m s) = timers s"
  unfolding callback_def uncaught_def
  by (auto split: prod.splits outcome.splits) (metis snd_conv)+

lemma fire_timers:
  "timers (fire world tm s) = filter (\<lambda>x. fst x \<noteq> fst tm) (timers s)"
  by (simp add: fire_def Let_def callback_timers run_action_timers emit_def)

lemma fire_fewer:
  "tm \<in> set (timers s) \<Longrightarrow> length (timers (fire world tm s)) < length (timers s)"
  unfolding fire_timers
  by (metis (mono_tags, lifting) length_filter_less)

text \<open>\<open>advance world t\<close> fires, earliest first, every armed timer that is due by \<open>t\<close>.\<close>

function advance :: "(nat \<Rightarrow> pipeline_env) \<Rightarrow> nat \<Rightarrow> state \<Rightarrow> state" where
  "advance world t s =
     (case next_due t s of
        None \<Rightarrow> s
      | Some tm \<Rightarrow> advance world t (fire world tm s))"
  by pat_completeness auto
termination
  by (relation "measure (\<lambda>(world, t, s). length (timers s))")
     (auto dest: next_due_mem intro: fire_fewer)

declare advance.simps [simp del]

fun handler :: "event \<Rightarrow> unit io" where
  "handler (FileChange dir filename) = on_change dir filename"
| "handler Sigint = on_sigint"

definition deliver :: "(nat \<Rightarrow> pipeline_env) \<Rightarrow> nat \<times> event \<Rightarrow> state \<Rightarrow> state" where
  "deliver world ev s =
     (let s1 = advance world (fst ev) s
      in callback (handler (snd ev)) (s1\<lparr>clock := max (clock s1) (fst ev)\<rparr>))"

fun run :: "(nat \<Rightarrow> pipeline_env) \<Rightarrow> (nat \<times> event) list \<Rightarrow> state \<Rightarrow> state" where
  "run world [] s = s"
| "run world (ev # evs) s = run world evs (deliver world ev s)"

text \<open>
  A change event is accepted when the listener passes it on to the debouncer. A burst is
  a run of event times in which each event follows the one before by less than \<open>d\<close>.
  \<open>armed t s\<close>: the process runs, the clock reads \<open>t\<close>, and the one armed timer is the
  one \<open>rebuildTimer\<close> refers to, due a second later.
\<close>

fun accepted :: "nat \<times> event \<Rightarrow> bool" where
  "accepted (t, FileChange dir (Some f)) = (f \<noteq> [] \<and> \<not> shouldIgnore f)"
| "accepted (t, FileChange dir None) = False"
| "accepted (t, Sigint) = False"

fun burst :: "nat \<Rightarrow> nat list \<Rightarrow> bool" where
  "burst d [] = True"
| "burst d [t] = True"
| "burst d (t # u # ts) = (t \<le> u \<and> u < t + d \<and> burst d (u # ts))"

definition armed :: "nat \<Rightarrow> state \<Rightarrow> bool" where
  "armed t s =
     (status s = Running \<and> clock s = t
      \<and> (\<exists>h. timers s = [(h, t + 1000, GuardedRebuild)] \<and> rebuildTimer s = Some h))"

section \<open>Reading a trace\<close>

fun execs :: "effect list \<Rightarrow> command list" where
  "execs [] = []"
| "execs (ExecSync c # es) = c # execs es"
| "execs (e # es) = execs es"

fun fired :: "effect list \<Rightarrow> nat list" where
  "fired [] = []"
| "fired (Fire h t # es) = t # fired es"
| "fired (e # es) = fired es"

fun watched :: "effect list \<Rightarrow> string list" where
  "watched [] = []"
| "watched (WatchDir d # es) = d # watched es"
| "watched (e # es) = watched es"

text \<open>
  A pipeline run begins with the line \<open>MRebuilding\<close> and finishes with
  \<open>MRebuildComplete\<close> or \<open>MRebuildFailed\<close>. \<open>flight active es\<close> reads a trace for
  overlapping runs: \<open>None\<close> when a run begins while another is in flight, otherwise
  whether a run is in flight at the end. \<open>single_flight a s\<close>: the trace of \<open>s\<close> has no
  overlapping runs, a run is in flight at its end exactly when \<open>a\<close>, and the rebuild flag
  says the same.
\<close>

datatype mark = Begin | Finish | Other

fun mark_of :: "effect \<Rightarrow> mark" where
  "mark_of (Console Out MRebuilding) = Begin"
| "mark_of (Console Out MRebuildComplete) = Finish"
| "mark_of (Console Err (MRebuildFailed e)) = Finish"
| "mark_of e = Other"

fun flight :: "bool \<Rightarrow> effect list \<Rightarrow> bool option" where
  "flight active [] = Some active"
| "flight active (e # es) =
     (case mark_of e of
        Begin \<Rightarrow> (if active then None else flight True es)
      | Finish \<Rightarrow> flight False es
      | Other \<Rightarrow> flight active es)"

definition single_flight :: "bool \<Rightarrow> state \<Rightarrow> bool" where
  "single_flight a s = (flight False (trace s) = Some a \<and> isRebuilding s = a)"

text \<open>\<open>held cs s\<close>: the rebuild flag is set and the commands run so far are \<open>cs\<close>.\<close>

definition held :: "command list \<Rightarrow> state \<Rightarrow> bool" where
  "held cs s = (isRebuilding s \<and> execs (trace s) = cs)"

section \<open>Sample states and environments\<close>

definition idle_state :: state where
  "idle_state =
     \<lparr>verdaccioProcess = Some (ChildProcess False), isRebuilding = False,
      rebuildTimer = None, timers = [], next_timer = 0, clock = 0, trace = [],
      status = Running\<rparr>"

definition busy_state :: state where
  "busy_state = idle_state\<lparr>isRebuilding := True\<rparr>"

definition all_ok :: pipeline_env where
  "all_ok = \<lparr>build_result = Done [], unpublish_result = Done [], publish_result = Done []\<rparr>"

definition always_up :: "nat \<Rightarrow> ping_result" where
  "always_up k = Status 200"

definition never_up :: "nat \<Rightarrow> ping_result" where
  "never_up k = ConnError"

definition build_fails :: pipeline_env where
  "build_fails = all_ok\<lparr>build_result := Threw (Error ''exit 1'')\<rparr>"

definition unpublish_fails :: pipeline_env where
  "unpublish_fails = all_ok\<lparr>unpublish_result := Threw (Error ''ETIMEDOUT'')\<rparr>"

definition publish_fails :: pipeline_env where
  "publish_fails = all_ok\<lparr>publish_result := Threw (Error ''E403'')\<rparr>"

definition publish_again :: pipeline_env where
  "publish_again = all_ok\<lparr>publish_result := Threw (Error ''You cannot publish over 1.0.0'')\<rparr>"

definition up_at_3 :: "nat \<Rightarrow> ping_result" where
  "up_at_3 k = (if k = 3 then Status 200 else Status 503)"

definition eaddrinuse :: js_error where
  "eaddrinuse = Error ''listen EADDRINUSE: address already in use :::4873''"

definition enoent :: js_error where
  "enoent = Error ''spawn npx ENOENT''"

definition sample_fs :: "string \<Rightarrow> fsnode" where
  "sample_fs root =
     Dir [(''foo'', Dir [(''src'', Dir [(''index.ts'', File)]), (''dist'', Dir [])])]"

definition calm_world :: "nat \<Rightarrow> pipeline_env" where
  "calm_world t = all_ok"

definition two_changes :: "(nat \<times> event) list" where
  "two_changes =
     [(0, FileChange ''/repo/libs/foo/src'' (Some ''index.ts'')),
      (200, FileChange ''/repo/libs/foo/src'' (Some ''index.ts''))]"

definition armed_state :: state where
  "armed_state =
     idle_state\<lparr>rebuildTimer := Some 0, timers := [(0, 1000, GuardedRebuild)],
       next_timer := 1\<rparr>"

definition busy_armed_state :: state where
  "busy_armed_state = armed_state\<lparr>isRebuilding := True\<rparr>"

definition mid_run_state :: state where
  "mid_run_state = busy_armed_state\<lparr>trace := [Console Out MRebuilding]\<rparr>"

section \<open>Names for the parts of a startup\<close>

text \<open>
  \<open>polls n\<close> is the trace of \<open>n\<close> rounds of waiting a second and sending a request.
  \<open>tolerated\<close> holds of a start without a spawn error and of one whose error message
  names \<^verbatim>\<open>EADDRINUSE\<close>. \<open>boot_pipeline\<close> and \<open>fatal\<close> name the rest of the
  \<^verbatim>\<open>try\<close> block of \<open>startWatchMode\<close> and its \<^verbatim>\<open>catch\<close> block.
\<close>

definition polls :: "nat \<Rightarrow> effect list" where
  "polls n = concat (replicate n [Sleep 1000, Ping])"

definition tolerated :: "js_error option \<Rightarrow> bool" where
  "tolerated spawn_error =
     (case spawn_error of None \<Rightarrow> True | Some e \<Rightarrow> includes_str (message e) ''EADDRINUSE'')"

definition spawn_lines :: "js_error option \<Rightarrow> effect list" where
  "spawn_lines spawn_error =
     (case spawn_error of None \<Rightarrow> [] | Some e \<Rightarrow> [Console Err (MVerdaccioProcessError e)])"

definition boot_pipeline :: "string \<Rightarrow> (string \<Rightarrow> fsnode) \<Rightarrow> pipeline_env \<Rightarrow> unit io" where
  "boot_pipeline cwd fs env =
     seq (buildLibraries (build_result env))
    (seq (cleanRegistry (unpublish_result env))
    (seq (publishPackages (publish_result env))
    (seq (setupFileWatchers fs [join cwd ''libs''])
         (console_log MWatchReady))))"

definition fatal :: "js_error \<Rightarrow> unit io" where
  "fatal = (\<lambda>error. seq (console_error (MFatal error)) (seq killChildProcesses (process_exit 1)))"

section \<open>What one pipeline run writes to the trace\<close>

text \<open>
  \<open>benign e\<close>: the message of \<open>e\<close> carries one of the two signatures that
  \<open>publishPackages\<close> looks for.
\<close>

definition benign :: "js_error \<Rightarrow> bool" where
  "benign e =
     (includes_str (message e) ''cannot publish over the previously published versions''
      \<or> includes_str (message e) ''You cannot publish over'')"

definition build_trace :: "exec_result \<Rightarrow> effect list" where
  "build_trace r =
     [Console Out MBuilding, ExecSync Build] @
     (case r of Done output \<Rightarrow> [Console Out MBuildCompleted]
              | Threw e \<Rightarrow> [Console Err (MBuildFailed (message e))])"

definition opt_line :: "(string \<Rightarrow> msg) \<Rightarrow> string option \<Rightarrow> effect list" where
  "opt_line f v = (case v of None \<Rightarrow> [] | Some x \<Rightarrow> if x = [] then [] else [Console Out (f x)])"

definition clean_trace :: "exec_result \<Rightarrow> effect list" where
  "clean_trace r =
     [Console Out MCleaning, ExecSync Unpublish] @
     (case r of
        Done output \<Rightarrow>
          (if output = [] then [] else [Console Out (MOutput output)]) @ [Console Out MCleanupCompleted]
      | Threw e \<Rightarrow>
          opt_line MStdout (stdout e) @ opt_line MStderr (stderr e) @
          (if code e = CodeNum 0 then [] else [Console Out (MUnpublishExitCode (code e))]) @
          [Console Out MNoPreviousPackages])"

definition publish_trace :: "exec_result \<Rightarrow> effect list" where
  "publish_trace r =
     [Console Out MPublishing, ExecSync Publish] @
     (case r of
        Done output \<Rightarrow> [Console Out MPublished]
      | Threw e \<Rightarrow> [if benign e then Console Out MAlreadyExist else Console Err MPublishWarnings])"

definition pipeline_trace :: "pipeline_env \<Rightarrow> effect list" where
  "pipeline_trace env =
     build_trace (build_result env) @
     (case build_result env of
        Threw e \<Rightarrow> [Console Err (MRebuildFailed (Error (''Build failed: '' @ message e)))]
      | Done output \<Rightarrow>
          clean_trace (unpublish_result env) @ publish_trace (publish_result env) @
          [Console Out MRebuildComplete])"

lemma buildLibraries_eq:
  "buildLibraries r s =
     ((case r of Done output \<Rightarrow> Return ()
               | Threw e \<Rightarrow> Throw (Error (''Build failed: '' @ message e))),
      s\<lparr>trace := trace s @ build_trace r\<rparr>)"
  by (cases r) (simp_all add: buildLibraries_def build_trace_def io_defs)

lemma cleanRegistry_eq:
  "cleanRegistry r s = (Return (), s\<lparr>trace := trace s @ clean_trace r\<rparr>)"
  by (cases r)
     (simp_all add: cleanRegistry_def clean_trace_def opt_line_def io_defs split: option.splits)

lemma includes_str_Nil: "includes_str [] sub = (sub = [])"
  by simp

lemma errorMsg_benign:
  "(includes_str (or_else (message e) (or_else (toString e) [])) ''cannot publish over the previously published versions''
      \<or> includes_str (or_else (message e) (or_else (toString e) [])) ''You cannot publish over'')
   = benign e"
  by (cases "message e = []") (simp_all add: benign_def or_else_def toString_def)

lemma publishPackages_eq:
  "publishPackages r s = (Return (), s\<lparr>trace := trace s @ publish_trace r\<rparr>)"
proof (cases r)
  case (Done out)
  then show ?thesis by (simp add: publishPackages_def publish_trace_def io_defs)
next
  case (Threw e)
  then show ?thesis
    using errorMsg_benign [of e]
    by (simp add: publishPackages_def publish_trace_def io_defs Let_def del: includes_str.simps)
qed

lemma rebuild_eq:
  "\<not> isRebuilding s \<Longrightarrow>
     rebuild env s =
       (Return (), s\<lparr>trace := trace s @ Console Out MRebuilding # pipeline_trace env\<rparr>)"
  by (cases "build_result env")
     (simp_all add: rebuild_def pipeline_trace_def buildLibraries_eq cleanRegistry_eq
        publishPackages_eq set_isRebuilding_def bind_def seq_def try_catch_def try_finally_def
        console_log_def console_error_def emit_def)

lemma execs_append: "execs (xs @ ys) = execs xs @ execs ys"
  by (induction xs rule: execs.induct) simp_all

lemma execs_opt_line: "execs (opt_line f v) = []"
  by (simp add: opt_line_def split: option.splits)

lemma execs_build_trace: "execs (build_trace r) = [Build]"
  by (cases r) (simp_all add: build_trace_def)

lemma execs_clean_trace: "execs (clean_trace r) = [Unpublish]"
  by (cases r) (simp_all add: clean_trace_def execs_append execs_opt_line)

lemma execs_publish_trace: "execs (publish_trace r) = [Publish]"
  by (cases r) (simp_all add: publish_trace_def)

lemma rebuild_enters:
  "\<not> isRebuilding s \<Longrightarrow>
     rebuild env s = rebuild_try env (emit (Console Out MRebuilding) (s\<lparr>isRebuilding := True\<rparr>))"
  by (simp add: rebuild_def rebuild_try_def seq_def bind_def set_isRebuilding_def console_log_def)

lemma rebuild_try_eq:
  "rebuild_try env s =
     (Return (), s\<lparr>isRebuilding := False, trace := trace s @ pipeline_trace env\<rparr>)"
  by (cases "build_result env")
     (simp_all add: rebuild_try_def pipeline_trace_def buildLibraries_eq cleanRegistry_eq
        publishPackages_eq set_isRebuilding_def bind_def seq_def try_catch_def try_finally_def
        console_log_def console_error_def emit_def)

lemma finally_resets:
  assumes "fst (m s) \<noteq> Halt"
  shows "isRebuilding (snd (try_finally m (set_isRebuilding False) s)) = False"
proof -
  obtain r s' where ms: "m s = (r, s')" by (cases "m s")
  with assms have "r \<noteq> Halt" by simp
  then show ?thesis
    by (cases r) (simp_all add: try_finally_def ms set_isRebuilding_def)
qed

lemma step_keeps_flag:
  "isRebuilding (snd (buildLibraries r s)) = isRebuilding s
   \<and> isRebuilding (snd (cleanRegistry r s)) = isRebuilding s
   \<and> isRebuilding (snd (publishPackages r s)) = isRebuilding s"
  by (simp add: buildLibraries_eq cleanRegistry_eq publishPackages_eq)

section \<open>The pipeline runner, step by step\<close>


text \<open>C3: the \<^verbatim>\<open>try\<close> statement of \<open>rebuild\<close> returns normally and leaves the rebuild
  flag idle in whatever state it starts, the flag set included, and whatever the three
  steps do; the \<^verbatim>\<open>finally\<close> block resets the flag after any protected block that returns
  or throws. A run started from idle is that statement entered with the flag set.\<close>

theorem rebuild_resets_state:
  "fst (rebuild_try env s) = Return ()
   \<and> isRebuilding (snd (rebuild_try env s)) = False
   \<and> (fst (m s) \<noteq> Halt \<longrightarrow>
        isRebuilding (snd (try_finally m (set_isRebuilding False) s)) = False)
   \<and> (\<not> isRebuilding s \<longrightarrow>
        rebuild env s
          = rebuild_try env (emit (Console Out MRebuilding) (s\<lparr>isRebuilding := True\<rparr>))
        \<and> fst (rebuild env s) = Return ()
        \<and> isRebuilding (snd (rebuild env s)) = False)"
  by (simp add: rebuild_try_eq finally_resets rebuild_enters)

theorem rebuild_resets_state_witness:
  "isRebuilding busy_state
   \<and> fst (rebuild_try build_fails busy_state) = Return ()
   \<and> isRebuilding (snd (rebuild_try build_fails busy_state)) = False
   \<and> isRebuilding (snd (rebuild_try publish_fails busy_state)) = False
   \<and> fst ((throw enoent :: unit io) busy_state) = Throw enoent
   \<and> isRebuilding
        (snd (try_finally (throw enoent :: unit io) (set_isRebuilding False) busy_state)) = False
   \<and> \<not> isRebuilding idle_state
   \<and> fst (rebuild unpublish_fails idle_state) = Return ()
   \<and> isRebuilding (snd (rebuild unpublish_fails idle_state)) = False"
proof -
  have busy: "isRebuilding busy_state" and idle: "\<not> isRebuilding idle_state"
    by (simp_all add: busy_state_def idle_state_def)
  have thrown: "fst ((throw enoent :: unit io) busy_state) = Throw enoent"
    and alive: "fst ((throw enoent :: unit io) busy_state) \<noteq> Halt"
    by (simp_all add: throw_def)
  note b = rebuild_resets_state
      [where env = build_fails and s = busy_state and m = "throw enoent :: unit io"]
  note p = rebuild_resets_state
      [where env = publish_fails and s = busy_state and m = "throw enoent :: unit io"]
  note u = rebuild_resets_state
      [where env = unpublish_fails and s = idle_state and m = "throw enoent :: unit io",
       THEN conjunct2, THEN conjunct2, THEN conjunct2, THEN mp, OF idle]
  show ?thesis
    using busy idle thrown
      b [THEN conjunct1] b [THEN conjunct2, THEN conjunct1]
      b [THEN conjunct2, THEN conjunct2, THEN conjunct1, THEN mp, OF alive]
      p [THEN conjunct2, THEN conjunct1]
      u [THEN conjunct2]
    by simp
qed

text \<open>C8: a failing unpublish step is swallowed inside \<open>cleanRegistry\<close>: it logs,
  returns normally, and the run goes on to publish.\<close>

theorem unpublish_failure_swallowed:
  assumes "\<not> isRebuilding s" and "build_result env = Done out"
    and "unpublish_result env = Threw e"
  shows "fst (cleanRegistry (Threw e) s0) = Return ()
         \<and> last (trace (snd (cleanRegistry (Threw e) s0))) = Console Out MNoPreviousPackages
         \<and> status (snd (cleanRegistry (Threw e) s0)) = status s0
         \<and> fst (rebuild env s) = Return ()
         \<and> execs (trace (snd (rebuild env s))) = execs (trace s) @ [Build, Unpublish, Publish]
         \<and> status (snd (rebuild env s)) = status s"
  using assms
proof -
  have "last (clean_trace (Threw e)) = Console Out MNoPreviousPackages"
    by (simp add: clean_trace_def)
  moreover have "clean_trace (Threw e) \<noteq> []"
    by (simp add: clean_trace_def)
  moreover have "execs (pipeline_trace env) = [Build, Unpublish, Publish]"
    using assms
    by (simp add: pipeline_trace_def execs_append execs_build_trace execs_clean_trace
          execs_publish_trace)
  ultimately show ?thesis
    using assms by (simp add: cleanRegistry_eq rebuild_eq execs_append)
qed

theorem unpublish_failure_swallowed_witness:
  "\<not> isRebuilding idle_state
   \<and> build_result unpublish_fails = Done []
   \<and> unpublish_result unpublish_fails = Threw (Error ''ETIMEDOUT'')
   \<and> fst (cleanRegistry (Threw (Error ''ETIMEDOUT'')) idle_state) = Return ()
   \<and> fst (rebuild unpublish_fails idle_state) = Return ()
   \<and> execs (trace (snd (rebuild unpublish_fails idle_state))) = [Build, Unpublish, Publish]
   \<and> status (snd (rebuild unpublish_fails idle_state)) = Running"
  using unpublish_failure_swallowed
          [of idle_state unpublish_fails "[]" "Error ''ETIMEDOUT''" idle_state]
  by (simp add: idle_state_def unpublish_fails_def all_ok_def)

text \<open>C6, as amended: in the watch daemon a failing publish step never throws. With
  one of the two signatures in the message it logs that the packages already exist;
  otherwise it logs a warning; either way the run returns normally and the process keeps
  running. The standalone boot script's \<open>publish\<close> logs the failure and throws it on.\<close>

theorem publish_failure_handling:
  assumes "publish_result env = Threw e"
  shows "publishPackages (Threw e) s0 =
           (Return (),
            s0\<lparr>trace := trace s0 @
                  [Console Out MPublishing, ExecSync Publish,
                   if benign e then Console Out MAlreadyExist
                   else Console Err MPublishWarnings]\<rparr>)
         \<and> (\<not> isRebuilding s \<longrightarrow>
              fst (rebuild env s) = Return () \<and> status (snd (rebuild env s)) = status s)
         \<and> publish (Threw e) s0 =
             (Throw (Error (''Publish failed: '' @ message e)),
              s0\<lparr>trace := trace s0 @
                    [Console Out MPublishing, ExecSync Publish,
                     Console Err (MPublishFailed (message e))]\<rparr>)"
  using assms
  by (simp add: publishPackages_eq publish_trace_def rebuild_eq publish_def io_defs)

theorem publish_failure_handling_witness:
  "publish_result publish_again = Threw (Error ''You cannot publish over 1.0.0'')
   \<and> benign (Error ''You cannot publish over 1.0.0'')
   \<and> \<not> isRebuilding idle_state
   \<and> trace (snd (publishPackages (Threw (Error ''You cannot publish over 1.0.0'')) idle_state))
       = [Console Out MPublishing, ExecSync Publish, Console Out MAlreadyExist]
   \<and> fst (rebuild publish_again idle_state) = Return ()
   \<and> status (snd (rebuild publish_again idle_state)) = Running
   \<and> fst (publish (Threw (Error ''You cannot publish over 1.0.0'')) idle_state)
       = Throw (Error ''Publish failed: You cannot publish over 1.0.0'')"
  using publish_failure_handling
          [of publish_again "Error ''You cannot publish over 1.0.0''" idle_state idle_state]
  by (simp add: idle_state_def publish_again_def all_ok_def benign_def Error_def)

section \<open>Registry startup, step by step\<close>

lemma polls_Suc: "polls (Suc n) = Sleep 1000 # Ping # polls n"
  by (simp add: polls_def)

lemma poll_exhausted:
  "(\<And>k. attempts < k \<Longrightarrow> k \<le> maxAttempts \<Longrightarrow> pings k \<noteq> Status 200) \<Longrightarrow>
     poll pings attempts s =
       (Throw (Error ''Verdaccio failed to start''),
        s\<lparr>clock := clock s + 1000 * (maxAttempts - attempts),
          trace := trace s @ polls (maxAttempts - attempts)\<rparr>)"
proof (induction pings attempts s rule: poll.induct)
  case (1 pings attempts s)
  show ?case
  proof (cases "attempts < maxAttempts")
    case False
    then show ?thesis
      by (subst poll.simps) (simp add: throw_def polls_def)
  next
    case True
    let ?s' = "s\<lparr>clock := clock s + 1000, trace := trace s @ [Sleep 1000, Ping]\<rparr>"
    have step: "seq (sleep 1000) (get_ping (pings (Suc attempts))) s = (Return False, ?s')"
      using True "1.prems" [of "Suc attempts"]
      by (simp add: seq_def bind_def sleep_def get_ping_def emit_def)
    have rest: "poll pings (Suc attempts) ?s' =
        (Throw (Error ''Verdaccio failed to start''),
         ?s'\<lparr>clock := clock ?s' + 1000 * (maxAttempts - Suc attempts),
             trace := trace ?s' @ polls (maxAttempts - Suc attempts)\<rparr>)"
      using "1.IH"(1) [OF True step [symmetric] refl] "1.prems" by simp
    have n: "maxAttempts - attempts = Suc (maxAttempts - Suc attempts)"
      using True by simp
    show ?thesis
      by (subst poll.simps) (simp add: True step rest n polls_Suc)
  qed
qed

lemma poll_ready:
  "attempts < k \<Longrightarrow> k \<le> maxAttempts \<Longrightarrow> pings k = Status 200 \<Longrightarrow>
   (\<And>j. attempts < j \<Longrightarrow> j < k \<Longrightarrow> pings j \<noteq> Status 200) \<Longrightarrow>
     poll pings attempts s =
       (Return (),
        s\<lparr>clock := clock s + 1000 * (k - attempts),
          trace := trace s @ polls (k - attempts) @ [Console Out MVerdaccioReady]\<rparr>)"
proof (induction pings attempts s rule: poll.induct)
  case (1 pings attempts s)
  have lt: "attempts < maxAttempts" using "1.prems" by simp
  let ?s' = "s\<lparr>clock := clock s + 1000, trace := trace s @ [Sleep 1000, Ping]\<rparr>"
  show ?case
  proof (cases "k = Suc attempts")
    case True
    have step: "seq (sleep 1000) (get_ping (pings (Suc attempts))) s = (Return True, ?s')"
      using True "1.prems"
      by (simp add: seq_def bind_def sleep_def get_ping_def emit_def)
    show ?thesis
      by (subst poll.simps) (simp add: lt step True polls_def console_log_def emit_def)
  next
    case False
    then have k: "Suc attempts < k" using "1.prems" by simp
    have step: "seq (sleep 1000) (get_ping (pings (Suc attempts))) s = (Return False, ?s')"
      using k "1.prems"(4) [of "Suc attempts"]
      by (simp add: seq_def bind_def sleep_def get_ping_def emit_def)
    have rest: "poll pings (Suc attempts) ?s' =
        (Return (),
         ?s'\<lparr>clock := clock ?s' + 1000 * (k - Suc attempts),
             trace := trace ?s' @ polls (k - Suc attempts) @ [Console Out MVerdaccioReady]\<rparr>)"
      using "1.IH"(1) [OF lt step [symmetric] refl _ k] "1.prems" by simp
    have n: "k - attempts = Suc (k - Suc attempts)"
      using k by simp
    show ?thesis
      by (subst poll.simps) (simp add: lt step rest n polls_Suc)
  qed
qed


lemma checkHealth_ready:
  "attempts < k \<Longrightarrow> k \<le> max_attempts \<Longrightarrow> pings k = Status 200 \<Longrightarrow>
   (\<And>j. attempts < j \<Longrightarrow> j < k \<Longrightarrow> pings j \<noteq> Status 200) \<Longrightarrow>
     checkHealth pings max_attempts attempts s =
       (Return (),
        s\<lparr>clock := clock s + 1000 * (k - attempts),
          trace := trace s @ polls (k - attempts) @ [Console Out MVerdaccioReady]\<rparr>)"
proof (induction pings max_attempts attempts s rule: checkHealth.induct)
  case (1 pings max_attempts attempts s)
  let ?s' = "s\<lparr>clock := clock s + 1000, trace := trace s @ [Sleep 1000, Ping]\<rparr>"
  show ?case
  proof (cases "k = Suc attempts")
    case True
    have step: "seq (sleep 1000) (get_ping (pings (Suc attempts))) s = (Return True, ?s')"
      using True "1.prems"
      by (simp add: seq_def bind_def sleep_def get_ping_def emit_def)
    show ?thesis
      by (subst checkHealth.simps)
         (simp add: step True polls_def console_log_def emit_def)
  next
    case False
    then have k: "Suc attempts < k" using "1.prems" by simp
    then have more: "\<not> max_attempts \<le> Suc attempts" using "1.prems" by simp
    have step: "seq (sleep 1000) (get_ping (pings (Suc attempts))) s = (Return False, ?s')"
      using k "1.prems"(4) [of "Suc attempts"]
      by (simp add: seq_def bind_def sleep_def get_ping_def emit_def)
    have rest: "checkHealth pings max_attempts (Suc attempts) ?s' =
        (Return (),
         ?s'\<lparr>clock := clock ?s' + 1000 * (k - Suc attempts),
             trace := trace ?s' @ polls (k - Suc attempts) @ [Console Out MVerdaccioReady]\<rparr>)"
      using "1.IH" [OF step [symmetric] refl _ more k] "1.prems" by simp
    have n: "k - attempts = Suc (k - Suc attempts)"
      using k by simp
    show ?thesis
      using more
      by (subst checkHealth.simps) (simp add: step rest n polls_Suc)
  qed
qed

lemma startWatchMode_eq:
  "startWatchMode cwd fs spawn_error pings env =
     try_catch
       (seq (console_log MStartingWatchMode)
       (seq (startVerdaccio spawn_error pings) (boot_pipeline cwd fs env)))
       fatal"
  by (simp add: startWatchMode_def boot_pipeline_def fatal_def)

lemma before_poll:
  "tolerated spawn_error \<Longrightarrow>
     seq (console_log MStartingVerdaccio)
       (seq spawn (case spawn_error of None \<Rightarrow> ret () | Some e \<Rightarrow> uncaught (on_error e))) s =
     (Return (),
      s\<lparr>verdaccioProcess := Some (ChildProcess False),
        trace := trace s @ [Console Out MStartingVerdaccio, SpawnRegistry] @ spawn_lines spawn_error\<rparr>)"
  by (cases spawn_error)
     (simp_all add: tolerated_def spawn_lines_def spawn_def uncaught_def on_error_def io_defs
        del: includes_str.simps)

lemma seq_Return: "m s = (Return a, s') \<Longrightarrow> seq m k s = k s'"
  by (simp add: seq_def bind_def)

lemma seq_Throw: "m s = (Throw e, s') \<Longrightarrow> seq m k s = (Throw e, s')"
  by (simp add: seq_def bind_def)

lemma seq_Halt: "m s = (Halt, s') \<Longrightarrow> seq m k s = (Halt, s')"
  by (simp add: seq_def bind_def)

lemma seq_assoc: "seq (seq a b) c = seq a (seq b c)"
  by (rule ext) (simp add: seq_def bind_def split: prod.splits outcome.splits)

lemma startVerdaccio_split:
  "startVerdaccio spawn_error pings =
     seq (seq (console_log MStartingVerdaccio)
            (seq spawn (case spawn_error of None \<Rightarrow> ret () | Some e \<Rightarrow> uncaught (on_error e))))
         (poll pings 0)"
  by (simp add: startVerdaccio_def seq_assoc)

lemma startVerdaccio_exhausted:
  assumes "tolerated spawn_error"
    and "\<And>k. 0 < k \<Longrightarrow> k \<le> maxAttempts \<Longrightarrow> pings k \<noteq> Status 200"
  shows "startVerdaccio spawn_error pings s =
     (Throw (Error ''Verdaccio failed to start''),
      s\<lparr>verdaccioProcess := Some (ChildProcess False),
        clock := clock s + 1000 * maxAttempts,
        trace := trace s @ [Console Out MStartingVerdaccio, SpawnRegistry]
                   @ spawn_lines spawn_error @ polls maxAttempts\<rparr>)"
proof -
  have "poll pings 0 s' =
      (Throw (Error ''Verdaccio failed to start''),
       s'\<lparr>clock := clock s' + 1000 * maxAttempts, trace := trace s' @ polls maxAttempts\<rparr>)"
    for s'
    using poll_exhausted [of 0 pings s'] assms(2) by simp
  then show ?thesis
    by (simp add: startVerdaccio_split
          seq_Return [of "seq (console_log MStartingVerdaccio) _", OF before_poll [OF assms(1)]])
qed

lemma startVerdaccio_ready:
  assumes "tolerated spawn_error"
    and "0 < k" and "k \<le> maxAttempts" and "pings k = Status 200"
    and "\<And>j. 0 < j \<Longrightarrow> j < k \<Longrightarrow> pings j \<noteq> Status 200"
  shows "startVerdaccio spawn_error pings s =
     (Return (),
      s\<lparr>verdaccioProcess := Some (ChildProcess False),
        clock := clock s + 1000 * k,
        trace := trace s @ [Console Out MStartingVerdaccio, SpawnRegistry]
                   @ spawn_lines spawn_error @ polls k @ [Console Out MVerdaccioReady]\<rparr>)"
proof -
  have "poll pings 0 s' =
      (Return (),
       s'\<lparr>clock := clock s' + 1000 * k,
          trace := trace s' @ polls k @ [Console Out MVerdaccioReady]\<rparr>)"
    for s'
    using poll_ready [of 0 k pings s'] assms(2-5) by simp
  then show ?thesis
    by (simp add: startVerdaccio_split
          seq_Return [of "seq (console_log MStartingVerdaccio) _", OF before_poll [OF assms(1)]])
qed

lemma startVerdaccio_crash:
  assumes "\<not> includes_str (message e) ''EADDRINUSE''"
  shows "startVerdaccio (Some e) pings s =
     (Halt,
      s\<lparr>verdaccioProcess := Some (ChildProcess False),
        trace := trace s @ [Console Out MStartingVerdaccio, SpawnRegistry,
                            Console Err (MVerdaccioProcessError e)],
        status := Uncaught e\<rparr>)"
  using assms
  by (simp add: startVerdaccio_def spawn_def uncaught_def on_error_def io_defs
        del: includes_str.simps)


lemma watched_append: "watched (xs @ ys) = watched xs @ watched ys"
  by (induction xs rule: watched.induct) simp_all

lemma watched_polls: "watched (polls n) = []"
  by (induction n) (simp_all add: polls_Suc, simp add: polls_def)

lemma execs_polls: "execs (polls n) = []"
  by (induction n) (simp_all add: polls_Suc, simp add: polls_def)

lemma watched_spawn_lines: "watched (spawn_lines e) = []"
  by (simp add: spawn_lines_def split: option.splits)

lemma execs_spawn_lines: "execs (spawn_lines e) = []"
  by (simp add: spawn_lines_def split: option.splits)

lemma first_ready:
  assumes "0 < (k::nat)" and "pings k = Status 200"
  shows "\<exists>k'. 0 < k' \<and> k' \<le> k \<and> pings k' = Status 200
              \<and> (\<forall>j. 0 < j \<and> j < k' \<longrightarrow> pings j \<noteq> Status 200)"
proof -
  let ?P = "\<lambda>j::nat. 0 < j \<and> pings j = Status 200"
  have P: "?P k" using assms by simp
  have 1: "?P (Least ?P)" using LeastI [of ?P k] P by simp
  have 2: "Least ?P \<le> k" using Least_le [of ?P k] P by simp
  have 3: "\<not> ?P j" if "j < Least ?P" for j using not_less_Least [of j ?P] that by simp
  show ?thesis
  proof (intro exI conjI allI impI)
    show "0 < Least ?P" using 1 by simp
    show "Least ?P \<le> k" by (rule 2)
    show "pings (Least ?P) = Status 200" using 1 by simp
    show "pings j \<noteq> Status 200" if "0 < j \<and> j < Least ?P" for j
      using 3 [of j] that by simp
  qed
qed

lemma maxAttempts_30: "maxAttempts = 30"
  by (simp add: maxAttempts_def)

text \<open>C7: when none of the 30 requests is answered with status 200, \<open>startWatchMode\<close>
  logs the fatal error, kills the child and exits with code 1, and neither a watcher nor a
  command has been started; when some request among the 30 is answered with 200,
  \<open>startVerdaccio\<close> returns and \<open>startWatchMode\<close> goes on with the boot pipeline.\<close>

theorem health_check_budget:
  assumes "tolerated spawn_error"
  shows
    "((\<forall>k. 0 < k \<and> k \<le> 30 \<longrightarrow> pings k \<noteq> Status 200) \<longrightarrow>
        startWatchMode cwd fs spawn_error pings env s =
          (Halt,
           s\<lparr>verdaccioProcess := Some (ChildProcess True),
             clock := clock s + 30000,
             trace := trace s @
               [Console Out MStartingWatchMode, Console Out MStartingVerdaccio, SpawnRegistry]
               @ spawn_lines spawn_error @ polls 30
               @ [Console Err (MFatal (Error ''Verdaccio failed to start'')), Kill, Exit 1],
             status := Exited 1\<rparr>)
        \<and> watched (trace (snd (startWatchMode cwd fs spawn_error pings env s)))
            = watched (trace s)
        \<and> execs (trace (snd (startWatchMode cwd fs spawn_error pings env s)))
            = execs (trace s))
     \<and> (0 < k \<and> k \<le> 30 \<and> pings k = Status 200 \<longrightarrow>
          fst (startVerdaccio spawn_error pings s) = Return ()
          \<and> status (snd (startVerdaccio spawn_error pings s)) = status s
          \<and> startWatchMode cwd fs spawn_error pings env s =
              try_catch (boot_pipeline cwd fs env) fatal
                (snd (startVerdaccio spawn_error pings (emit (Console Out MStartingWatchMode) s))))"
proof (intro conjI impI)
  assume never: "\<forall>k. 0 < k \<and> k \<le> 30 \<longrightarrow> pings k \<noteq> Status 200"
  then have n: "\<And>k. 0 < k \<Longrightarrow> k \<le> maxAttempts \<Longrightarrow> pings k \<noteq> Status 200"
    by (simp add: maxAttempts_30)
  show eq: "startWatchMode cwd fs spawn_error pings env s =
          (Halt,
           s\<lparr>verdaccioProcess := Some (ChildProcess True),
             clock := clock s + 30000,
             trace := trace s @
               [Console Out MStartingWatchMode, Console Out MStartingVerdaccio, SpawnRegistry]
               @ spawn_lines spawn_error @ polls 30
               @ [Console Err (MFatal (Error ''Verdaccio failed to start'')), Kill, Exit 1],
             status := Exited 1\<rparr>)"
  proof -
    let ?s1 = "emit (Console Out MStartingWatchMode) s"
    have first: "console_log MStartingWatchMode s = (Return (), ?s1)"
      by (simp add: console_log_def)
    have body: "seq (console_log MStartingWatchMode)
            (seq (startVerdaccio spawn_error pings) (boot_pipeline cwd fs env)) s =
          (Throw (Error ''Verdaccio failed to start''),
           ?s1\<lparr>verdaccioProcess := Some (ChildProcess False),
               clock := clock ?s1 + 1000 * maxAttempts,
               trace := trace ?s1 @ [Console Out MStartingVerdaccio, SpawnRegistry]
                   @ spawn_lines spawn_error @ polls maxAttempts\<rparr>)"
      unfolding seq_Return [of "console_log MStartingWatchMode" s, OF first]
      by (rule seq_Throw) (rule startVerdaccio_exhausted [OF assms n])
    let ?s2 = "?s1\<lparr>verdaccioProcess := Some (ChildProcess False),
               clock := clock ?s1 + 1000 * maxAttempts,
               trace := trace ?s1 @ [Console Out MStartingVerdaccio, SpawnRegistry]
                   @ spawn_lines spawn_error @ polls maxAttempts\<rparr>"
    have handled: "fatal e s' =
        (Halt, s'\<lparr>verdaccioProcess := Some (ChildProcess True),
                 trace := trace s' @ [Console Err (MFatal e), Kill, Exit 1],
                 status := Exited 1\<rparr>)"
      if "verdaccioProcess s' = Some p" for e s' p
      using that
      by (simp add: fatal_def seq_def bind_def console_error_def emit_def
            killChildProcesses_def process_exit_def)
    have "try_catch (seq (console_log MStartingWatchMode)
            (seq (startVerdaccio spawn_error pings) (boot_pipeline cwd fs env))) fatal s =
          fatal (Error ''Verdaccio failed to start'') ?s2"
      by (simp add: try_catch_def body)
    also have "\<dots> = (Halt, ?s2\<lparr>verdaccioProcess := Some (ChildProcess True),
                 trace := trace ?s2 @ [Console Err (MFatal (Error ''Verdaccio failed to start'')), Kill, Exit 1],
                 status := Exited 1\<rparr>)"
      by (rule handled [where p = "ChildProcess False"]) simp
    also have "\<dots> = (Halt,
           s\<lparr>verdaccioProcess := Some (ChildProcess True),
             clock := clock s + 30000,
             trace := trace s @
               [Console Out MStartingWatchMode, Console Out MStartingVerdaccio, SpawnRegistry]
               @ spawn_lines spawn_error @ polls 30
               @ [Console Err (MFatal (Error ''Verdaccio failed to start'')), Kill, Exit 1],
             status := Exited 1\<rparr>)"
      by (simp add: emit_def maxAttempts_30)
    finally show ?thesis
      unfolding startWatchMode_eq .
  qed
  show "watched (trace (snd (startWatchMode cwd fs spawn_error pings env s))) = watched (trace s)"
    by (simp add: eq watched_append watched_polls watched_spawn_lines)
  show "execs (trace (snd (startWatchMode cwd fs spawn_error pings env s))) = execs (trace s)"
    by (simp add: eq execs_append execs_polls execs_spawn_lines)
next
  assume "0 < k \<and> k \<le> 30 \<and> pings k = Status 200"
  then have "0 < k" and "k \<le> 30" and "pings k = Status 200"
    by simp_all
  from first_ready [of k pings, OF \<open>0 < k\<close> \<open>pings k = Status 200\<close>]
  obtain k' where "0 < k'" and "k' \<le> k" and "pings k' = Status 200"
    and first: "\<forall>j. 0 < j \<and> j < k' \<longrightarrow> pings j \<noteq> Status 200"
    by blast
  have "k' \<le> maxAttempts"
    using \<open>k' \<le> k\<close> \<open>k \<le> 30\<close> by (simp add: maxAttempts_30)
  have ready: "startVerdaccio spawn_error pings s' =
     (Return (),
      s'\<lparr>verdaccioProcess := Some (ChildProcess False),
        clock := clock s' + 1000 * k',
        trace := trace s' @ [Console Out MStartingVerdaccio, SpawnRegistry]
                   @ spawn_lines spawn_error @ polls k' @ [Console Out MVerdaccioReady]\<rparr>)"
    for s'
    using startVerdaccio_ready [of spawn_error k' pings s'] assms \<open>0 < k'\<close>
      \<open>k' \<le> maxAttempts\<close> \<open>pings k' = Status 200\<close> first
    by simp
  show "fst (startVerdaccio spawn_error pings s) = Return ()"
    by (simp add: ready)
  show "status (snd (startVerdaccio spawn_error pings s)) = status s"
    by (simp add: ready)
  show "startWatchMode cwd fs spawn_error pings env s =
          try_catch (boot_pipeline cwd fs env) fatal
            (snd (startVerdaccio spawn_error pings (emit (Console Out MStartingWatchMode) s)))"
  proof -
    let ?s1 = "emit (Console Out MStartingWatchMode) s"
    have first: "console_log MStartingWatchMode s = (Return (), ?s1)"
      by (simp add: console_log_def)
    have body: "seq (console_log MStartingWatchMode)
            (seq (startVerdaccio spawn_error pings) (boot_pipeline cwd fs env)) s =
          boot_pipeline cwd fs env (snd (startVerdaccio spawn_error pings ?s1))"
      unfolding seq_Return [of "console_log MStartingWatchMode" s, OF first]
      by (simp add: seq_Return [of "startVerdaccio spawn_error pings" ?s1, OF ready] ready)
    show ?thesis
      unfolding startWatchMode_eq
      by (simp add: try_catch_def body)
  qed
qed

theorem health_check_budget_witness:
  "tolerated None
   \<and> never_up 1 = ConnError \<and> never_up 30 = ConnError
   \<and> fst (startWatchMode ''/repo'' sample_fs None never_up all_ok idle_state) = Halt
   \<and> status (snd (startWatchMode ''/repo'' sample_fs None never_up all_ok idle_state)) = Exited 1
   \<and> watched (trace (snd (startWatchMode ''/repo'' sample_fs None never_up all_ok idle_state))) = []
   \<and> (0::nat) < 3 \<and> (3::nat) \<le> 30 \<and> up_at_3 3 = Status 200
   \<and> fst (startVerdaccio None up_at_3 idle_state) = Return ()"
proof -
  have t: "tolerated None"
    by (simp add: tolerated_def)
  have n: "\<forall>k. 0 < k \<and> k \<le> 30 \<longrightarrow> never_up k \<noteq> Status 200"
    by (simp add: never_up_def)
  have u: "(0::nat) < 3 \<and> (3::nat) \<le> 30 \<and> up_at_3 3 = Status 200"
    by (simp add: up_at_3_def)
  note down =
    health_check_budget
      [where spawn_error = None and pings = never_up and cwd = "''/repo''"
         and fs = sample_fs and env = all_ok and s = idle_state and k = 1,
       OF t, THEN conjunct1, THEN mp, OF n]
  note up =
    health_check_budget
      [where spawn_error = None and pings = up_at_3 and cwd = "''/repo''"
         and fs = sample_fs and env = all_ok and s = idle_state and k = 3,
       OF t, THEN conjunct2, THEN mp, OF u]
  have halted: "fst (startWatchMode ''/repo'' sample_fs None never_up all_ok idle_state) = Halt"
    and exited:
      "status (snd (startWatchMode ''/repo'' sample_fs None never_up all_ok idle_state)) = Exited 1"
    by (simp_all add: down [THEN conjunct1])
  have unwatched:
    "watched (trace (snd (startWatchMode ''/repo'' sample_fs None never_up all_ok idle_state))) = []"
    using down [THEN conjunct2, THEN conjunct1] by (simp add: idle_state_def)
  show ?thesis
    using t u halted exited unwatched up [THEN conjunct1] by (simp add: never_up_def)
qed

section \<open>A failing build\<close>

lemma fatal_exits:
  assumes "verdaccioProcess s = Some p"
  shows "fatal e s =
     (Halt, s\<lparr>verdaccioProcess := Some (ChildProcess True),
              trace := trace s @ [Console Err (MFatal e), Kill, Exit 1],
              status := Exited 1\<rparr>)"
  using assms
  by (simp add: fatal_def seq_def bind_def console_error_def emit_def killChildProcesses_def
        process_exit_def)

lemma boot_build_failure:
  assumes t: "tolerated spawn_error"
    and k: "0 < k" "k \<le> 30" "pings k = Status 200"
    and earlier: "\<forall>j. 0 < j \<and> j < k \<longrightarrow> pings j \<noteq> Status 200"
    and b: "build_result env = Threw e"
  shows "startWatchMode cwd fs spawn_error pings env s =
     (Halt,
      s\<lparr>verdaccioProcess := Some (ChildProcess True),
        clock := clock s + 1000 * k,
        trace := trace s @
          [Console Out MStartingWatchMode, Console Out MStartingVerdaccio, SpawnRegistry]
          @ spawn_lines spawn_error @ polls k
          @ [Console Out MVerdaccioReady, Console Out MBuilding, ExecSync Build,
             Console Err (MBuildFailed (message e)),
             Console Err (MFatal (Error (''Build failed: '' @ message e))), Kill, Exit 1],
        status := Exited 1\<rparr>)"
proof -
  let ?s1 = "emit (Console Out MStartingWatchMode) s"
  let ?s2 = "?s1\<lparr>verdaccioProcess := Some (ChildProcess False),
        clock := clock ?s1 + 1000 * k,
        trace := trace ?s1 @ [Console Out MStartingVerdaccio, SpawnRegistry]
                   @ spawn_lines spawn_error @ polls k @ [Console Out MVerdaccioReady]\<rparr>"
  let ?s3 = "?s2\<lparr>trace := trace ?s2 @ build_trace (build_result env)\<rparr>"
  let ?err = "Error (''Build failed: '' @ message e)"
  have km: "k \<le> maxAttempts" using k(2) by (simp add: maxAttempts_30)
  have first: "console_log MStartingWatchMode s = (Return (), ?s1)"
    by (simp add: console_log_def)
  have ready: "startVerdaccio spawn_error pings ?s1 = (Return (), ?s2)"
    using startVerdaccio_ready [of spawn_error k pings ?s1] t k(1,3) km earlier by simp
  have build: "buildLibraries (build_result env) ?s2 = (Throw ?err, ?s3)"
    by (simp add: buildLibraries_eq b)
  have boot: "boot_pipeline cwd fs env ?s2 = (Throw ?err, ?s3)"
    unfolding boot_pipeline_def by (rule seq_Throw) (rule build)
  have body: "seq (console_log MStartingWatchMode)
            (seq (startVerdaccio spawn_error pings) (boot_pipeline cwd fs env)) s =
          (Throw ?err, ?s3)"
    unfolding seq_Return [of "console_log MStartingWatchMode" s, OF first]
    unfolding seq_Return [of "startVerdaccio spawn_error pings" ?s1, OF ready]
    by (rule boot)
  have "try_catch (seq (console_log MStartingWatchMode)
            (seq (startVerdaccio spawn_error pings) (boot_pipeline cwd fs env))) fatal s =
          fatal ?err ?s3"
    by (simp add: try_catch_def body)
  also have "\<dots> = (Halt, ?s3\<lparr>verdaccioProcess := Some (ChildProcess True),
              trace := trace ?s3 @ [Console Err (MFatal ?err), Kill, Exit 1],
              status := Exited 1\<rparr>)"
    by (rule fatal_exits [where p = "ChildProcess False"]) simp
  also have "\<dots> = (Halt,
      s\<lparr>verdaccioProcess := Some (ChildProcess True),
        clock := clock s + 1000 * k,
        trace := trace s @
          [Console Out MStartingWatchMode, Console Out MStartingVerdaccio, SpawnRegistry]
          @ spawn_lines spawn_error @ polls k
          @ [Console Out MVerdaccioReady, Console Out MBuilding, ExecSync Build,
             Console Err (MBuildFailed (message e)),
             Console Err (MFatal (Error (''Build failed: '' @ message e))), Kill, Exit 1],
        status := Exited 1\<rparr>)"
    by (simp add: emit_def build_trace_def b)
  finally show ?thesis
    unfolding startWatchMode_eq .
qed

lemma boot_build_fails_sample:
  "startWatchMode ''/repo'' sample_fs None always_up build_fails idle_state =
     (Halt,
      idle_state\<lparr>verdaccioProcess := Some (ChildProcess True),
        clock := 1000,
        trace :=
          [Console Out MStartingWatchMode, Console Out MStartingVerdaccio, SpawnRegistry,
           Sleep 1000, Ping, Console Out MVerdaccioReady, Console Out MBuilding,
           ExecSync Build, Console Err (MBuildFailed ''exit 1''),
           Console Err (MFatal (Error ''Build failed: exit 1'')), Kill, Exit 1],
        status := Exited 1\<rparr>)"
proof -
  have none: "\<forall>j. 0 < j \<and> j < (1::nat) \<longrightarrow> always_up j \<noteq> Status 200"
    by simp
  have "tolerated None" and "(0::nat) < 1" and "(1::nat) \<le> 30"
    and "always_up 1 = Status 200"
    by (simp_all add: tolerated_def always_up_def)
  from boot_build_failure [of None 1 always_up build_fails "Error ''exit 1''"
      "''/repo''" sample_fs idle_state, OF this none]
  show ?thesis
    by (simp add: build_fails_def all_ok_def spawn_lines_def polls_def idle_state_def Error_def)
qed

text \<open>C4, as amended: when the build step fails in a run started by \<open>rebuild\<close>, the
  run stops there: unpublish and publish are not run, the failure is logged as a failed
  rebuild, the \<^verbatim>\<open>try\<close> statement leaves the flag idle in whatever state it starts, and the
  process keeps running. In the run that \<open>startWatchMode\<close> makes at boot a failing build
  is fatal: once the registry answers, the failure is logged as fatal, the child is
  killed and the process exits with code 1, again without unpublish or publish.\<close>

theorem build_failure_aborts_run:
  assumes "build_result env = Threw e"
  shows "rebuild_try env s =
           (Return (),
            s\<lparr>isRebuilding := False,
              trace := trace s @
                 [Console Out MBuilding, ExecSync Build,
                  Console Err (MBuildFailed (message e)),
                  Console Err (MRebuildFailed (Error (''Build failed: '' @ message e)))]\<rparr>)
         \<and> (\<not> isRebuilding s \<longrightarrow>
              rebuild env s =
                (Return (),
                 s\<lparr>trace := trace s @
                   [Console Out MRebuilding, Console Out MBuilding, ExecSync Build,
                    Console Err (MBuildFailed (message e)),
                    Console Err (MRebuildFailed (Error (''Build failed: '' @ message e)))]\<rparr>)
              \<and> execs (trace (snd (rebuild env s))) = execs (trace s) @ [Build]
              \<and> isRebuilding (snd (rebuild env s)) = False
              \<and> status (snd (rebuild env s)) = status s)
         \<and> (tolerated spawn_error \<and> 0 < k \<and> k \<le> 30 \<and> pings k = Status 200
              \<and> (\<forall>j. 0 < j \<and> j < k \<longrightarrow> pings j \<noteq> Status 200) \<longrightarrow>
              startWatchMode cwd fs spawn_error pings env s =
                (Halt,
                 s\<lparr>verdaccioProcess := Some (ChildProcess True),
                   clock := clock s + 1000 * k,
                   trace := trace s @
                     [Console Out MStartingWatchMode, Console Out MStartingVerdaccio,
                      SpawnRegistry]
                     @ spawn_lines spawn_error @ polls k
                     @ [Console Out MVerdaccioReady, Console Out MBuilding, ExecSync Build,
                        Console Err (MBuildFailed (message e)),
                        Console Err (MFatal (Error (''Build failed: '' @ message e))),
                        Kill, Exit 1],
                   status := Exited 1\<rparr>))"
proof (intro conjI impI)
  show "rebuild_try env s =
           (Return (),
            s\<lparr>isRebuilding := False,
              trace := trace s @
                 [Console Out MBuilding, ExecSync Build,
                  Console Err (MBuildFailed (message e)),
                  Console Err (MRebuildFailed (Error (''Build failed: '' @ message e)))]\<rparr>)"
    using assms by (simp add: rebuild_try_eq pipeline_trace_def build_trace_def)
next
  assume idle: "\<not> isRebuilding s"
  show r: "rebuild env s =
                (Return (),
                 s\<lparr>trace := trace s @
                   [Console Out MRebuilding, Console Out MBuilding, ExecSync Build,
                    Console Err (MBuildFailed (message e)),
                    Console Err (MRebuildFailed (Error (''Build failed: '' @ message e)))]\<rparr>)"
    using assms idle by (simp add: rebuild_eq pipeline_trace_def build_trace_def)
  show "execs (trace (snd (rebuild env s))) = execs (trace s) @ [Build]"
    by (simp add: r execs_append)
  show "isRebuilding (snd (rebuild env s)) = False"
    using idle by (simp add: r)
  show "status (snd (rebuild env s)) = status s"
    by (simp add: r)
next
  assume "tolerated spawn_error \<and> 0 < k \<and> k \<le> 30 \<and> pings k = Status 200
              \<and> (\<forall>j. 0 < j \<and> j < k \<longrightarrow> pings j \<noteq> Status 200)"
  then show "startWatchMode cwd fs spawn_error pings env s =
                (Halt,
                 s\<lparr>verdaccioProcess := Some (ChildProcess True),
                   clock := clock s + 1000 * k,
                   trace := trace s @
                     [Console Out MStartingWatchMode, Console Out MStartingVerdaccio,
                      SpawnRegistry]
                     @ spawn_lines spawn_error @ polls k
                     @ [Console Out MVerdaccioReady, Console Out MBuilding, ExecSync Build,
                        Console Err (MBuildFailed (message e)),
                        Console Err (MFatal (Error (''Build failed: '' @ message e))),
                        Kill, Exit 1],
                   status := Exited 1\<rparr>)"
    using boot_build_failure [of spawn_error k pings env e cwd fs s] assms by blast
qed

theorem build_failure_aborts_run_witness:
  "build_result build_fails = Threw (Error ''exit 1'')
   \<and> isRebuilding busy_state
   \<and> isRebuilding (snd (rebuild_try build_fails busy_state)) = False
   \<and> \<not> isRebuilding idle_state
   \<and> execs (trace (snd (rebuild build_fails idle_state))) = [Build]
   \<and> status (snd (rebuild build_fails idle_state)) = Running
   \<and> tolerated None \<and> (0::nat) < 3 \<and> (3::nat) \<le> 30 \<and> up_at_3 3 = Status 200
   \<and> up_at_3 1 = Status 503 \<and> up_at_3 2 = Status 503
   \<and> status (snd (startWatchMode ''/repo'' sample_fs None up_at_3 build_fails idle_state))
       = Exited 1"
proof -
  have f: "build_result build_fails = Threw (Error ''exit 1'')"
    by (simp add: build_fails_def all_ok_def)
  have busy: "isRebuilding busy_state" and idle: "\<not> isRebuilding idle_state"
    by (simp_all add: busy_state_def idle_state_def)
  have up: "tolerated None \<and> (0::nat) < 3 \<and> (3::nat) \<le> 30 \<and> up_at_3 3 = Status 200
      \<and> (\<forall>j. 0 < j \<and> j < 3 \<longrightarrow> up_at_3 j \<noteq> Status 200)"
    by (simp add: tolerated_def up_at_3_def)
  have down: "up_at_3 1 = Status 503 \<and> up_at_3 2 = Status 503"
    by (simp add: up_at_3_def)
  note t = build_failure_aborts_run
      [OF f, where s = busy_state and spawn_error = None and k = 3 and pings = up_at_3
         and cwd = "''/repo''" and fs = sample_fs, THEN conjunct1]
  note w = build_failure_aborts_run
      [OF f, where s = idle_state and spawn_error = None and k = 3 and pings = up_at_3
         and cwd = "''/repo''" and fs = sample_fs]
  note r = w [THEN conjunct2, THEN conjunct1, THEN mp, OF idle]
  note boot = w [THEN conjunct2, THEN conjunct2, THEN mp, OF up]
  have 1: "isRebuilding (snd (rebuild_try build_fails busy_state)) = False"
    by (simp add: t)
  have 2: "execs (trace (snd (rebuild build_fails idle_state))) = [Build]"
    using r [THEN conjunct2, THEN conjunct1] by (simp add: idle_state_def)
  have 3: "status (snd (rebuild build_fails idle_state)) = Running"
    using r [THEN conjunct2, THEN conjunct2, THEN conjunct2] by (simp add: idle_state_def)
  have 4: "status (snd (startWatchMode ''/repo'' sample_fs None up_at_3 build_fails idle_state))
       = Exited 1"
    by (simp add: boot)
  show ?thesis
    using f busy idle up down 1 2 3 4 by simp
qed

text \<open>C4 as stated fails on the boot run: the build fails and the process exits.\<close>

theorem build_failure_counterexample:
  "build_result build_fails = Threw (Error ''exit 1'')
   \<and> fst (startWatchMode ''/repo'' sample_fs None always_up build_fails idle_state) = Halt
   \<and> status (snd (startWatchMode ''/repo'' sample_fs None always_up build_fails idle_state))
       = Exited 1
   \<and> execs (trace (snd (startWatchMode ''/repo'' sample_fs None always_up build_fails
        idle_state))) = [Build]"
  by (simp add: boot_build_fails_sample) (simp add: build_fails_def all_ok_def)

section \<open>Spawn errors, in both scripts\<close>

lemma startWatchMode_crash:
  assumes "\<not> includes_str (message e) ''EADDRINUSE''"
  shows "startWatchMode cwd fs (Some e) pings env s =
     (Halt,
      s\<lparr>verdaccioProcess := Some (ChildProcess False),
        trace := trace s @ [Console Out MStartingWatchMode, Console Out MStartingVerdaccio,
                            SpawnRegistry, Console Err (MVerdaccioProcessError e)],
        status := Uncaught e\<rparr>)"
proof -
  let ?s1 = "emit (Console Out MStartingWatchMode) s"
  have first: "console_log MStartingWatchMode s = (Return (), ?s1)"
    by (simp add: console_log_def)
  have "seq (console_log MStartingWatchMode)
          (seq (startVerdaccio (Some e) pings) (boot_pipeline cwd fs env)) s =
        (Halt,
         ?s1\<lparr>verdaccioProcess := Some (ChildProcess False),
           trace := trace ?s1 @ [Console Out MStartingVerdaccio, SpawnRegistry,
                            Console Err (MVerdaccioProcessError e)],
           status := Uncaught e\<rparr>)"
    unfolding seq_Return [of "console_log MStartingWatchMode" s, OF first]
    by (rule seq_Halt) (rule startVerdaccio_crash [OF assms])
  then show ?thesis
    unfolding startWatchMode_eq by (simp add: try_catch_def emit_def)
qed

lemma waitForVerdaccio_ready:
  assumes "0 < k" and "k \<le> maxAttempts" and "pings k = Status 200"
    and "\<forall>j. 0 < j \<and> j < k \<longrightarrow> pings j \<noteq> Status 200"
  shows "try_catch (waitForVerdaccio maxAttempts pings) h s =
       (Return (),
        s\<lparr>clock := clock s + 1000 * k,
          trace := trace s @ polls k @ [Console Out MVerdaccioReady]\<rparr>)"
  using checkHealth_ready [of 0 k maxAttempts pings s] assms
  by (simp add: try_catch_def waitForVerdaccio_def)

lemma startVerdaccio_part001_ready:
  assumes "tolerated spawn_error"
    and "0 < k" and "k \<le> maxAttempts" and "pings k = Status 200"
    and "\<forall>j. 0 < j \<and> j < k \<longrightarrow> pings j \<noteq> Status 200"
  shows "startVerdaccio_part001 spawn_error pings s =
     (Return (),
      s\<lparr>verdaccioProcess := Some (ChildProcess False),
        clock := clock s + 1000 * k,
        trace := trace s @ [Console Out MStartingVerdaccio, SpawnRegistry]
                   @ spawn_lines spawn_error @ polls k @ [Console Out MVerdaccioReady]\<rparr>)"
proof (cases spawn_error)
  case None
  show ?thesis
    unfolding startVerdaccio_part001_def Let_def None
    by (simp add: seq_def bind_def console_log_def spawn_def emit_def spawn_lines_def
          waitForVerdaccio_ready [OF assms(2-5)])
next
  case (Some e)
  then have "includes_str (message e) ''EADDRINUSE''"
    using assms(1) by (simp add: tolerated_def)
  then show ?thesis
    unfolding startVerdaccio_part001_def Let_def Some
    by (simp add: seq_def bind_def console_log_def console_error_def spawn_def emit_def
          spawn_lines_def waitForVerdaccio_ready [OF assms(2-5)] del: includes_str.simps)
qed

lemma startVerdaccio_part001_reject:
  assumes "\<not> includes_str (message e) ''EADDRINUSE''"
  shows "startVerdaccio_part001 (Some e) pings s =
     (Throw e,
      s\<lparr>verdaccioProcess := Some (ChildProcess False),
        trace := trace s @ [Console Out MStartingVerdaccio, SpawnRegistry,
                            Console Err (MVerdaccioProcessError e)]\<rparr>)"
  using assms
  unfolding startVerdaccio_part001_def Let_def
  by (simp add: seq_def bind_def console_log_def console_error_def spawn_def emit_def throw_def
        del: includes_str.simps)

lemma watch_reject:
  assumes "\<not> includes_str (message e) ''EADDRINUSE''"
  shows "watch (Some e) pings env s =
     (Halt,
      s\<lparr>verdaccioProcess := Some (ChildProcess True),
        trace := trace s @ [Console Out MStartingWatchMode, Console Out MStartingVerdaccio,
                            SpawnRegistry, Console Err (MVerdaccioProcessError e),
                            Console Err (MFatal e), Kill, Exit 1],
        status := Exited 1\<rparr>)"
proof -
  let ?s1 = "emit (Console Out MStartingWatchMode) s"
  let ?rest = "seq (buildLibs (build_result env))
       (seq (unpublish (unpublish_result env))
       (seq (publish (publish_result env))
            (console_log MWatchReady)))"
  have first: "console_log MStartingWatchMode s = (Return (), ?s1)"
    by (simp add: console_log_def)
  have body: "seq (console_log MStartingWatchMode)
          (seq (startVerdaccio_part001 (Some e) pings) ?rest) s =
        (Throw e,
         ?s1\<lparr>verdaccioProcess := Some (ChildProcess False),
           trace := trace ?s1 @ [Console Out MStartingVerdaccio, SpawnRegistry,
                            Console Err (MVerdaccioProcessError e)]\<rparr>)"
    unfolding seq_Return [of "console_log MStartingWatchMode" s, OF first]
    by (rule seq_Throw) (rule startVerdaccio_part001_reject [OF assms])
  show ?thesis
    unfolding watch_def try_catch_def body
    by (simp add: seq_def bind_def console_error_def emit_def killChildProcesses_def
          process_exit_def)
qed

lemma watch_publish_fails:
  "watch None always_up publish_fails idle_state =
     (Halt,
      idle_state
        \<lparr>verdaccioProcess := Some (ChildProcess True),
         clock := 1000,
         trace :=
           [Console Out MStartingWatchMode, Console Out MStartingVerdaccio, SpawnRegistry,
            Sleep 1000, Ping, Console Out MVerdaccioReady,
            Console Out MBuilding, ExecSync Build, Console Out MBuildCompleted,
            Console Out MCleaning, ExecSync Unpublish, Console Out MCleanupCompleted,
            Console Out MPublishing, ExecSync Publish, Console Err (MPublishFailed ''E403''),
            Console Err (MFatal (Error ''Publish failed: E403'')), Kill, Exit 1],
         status := Exited 1\<rparr>)"
proof -
  have sv: "startVerdaccio_part001 None always_up s' =
     (Return (),
      s'\<lparr>verdaccioProcess := Some (ChildProcess False),
        clock := clock s' + 1000,
        trace := trace s' @ [Console Out MStartingVerdaccio, SpawnRegistry,
                    Sleep 1000, Ping, Console Out MVerdaccioReady]\<rparr>)" for s'
  proof -
    have none: "\<forall>j. 0 < j \<and> j < (1::nat) \<longrightarrow> always_up j \<noteq> Status 200"
      by simp
    have "tolerated None" and "(0::nat) < 1" and "1 \<le> maxAttempts"
      and "always_up 1 = Status 200"
      by (simp_all add: tolerated_def maxAttempts_30 always_up_def)
    from startVerdaccio_part001_ready [of None 1 always_up s', OF this none]
    show ?thesis
      by (simp add: spawn_lines_def polls_def)
  qed
  show ?thesis
    unfolding watch_def
    by (simp add: sv buildLibs_def unpublish_def publish_def publish_fails_def all_ok_def
          idle_state_def Error_def killChildProcesses_def process_exit_def io_defs)
qed

text \<open>In the standalone script a failing publish step is fatal whenever it is reached.\<close>

lemma watch_publish_failure_fatal:
  assumes t: "tolerated spawn_error"
    and k: "0 < k" "k \<le> 30" "pings k = Status 200"
    and earlier: "\<forall>j. 0 < j \<and> j < k \<longrightarrow> pings j \<noteq> Status 200"
    and b: "build_result env = Done out"
    and p: "publish_result env = Threw e"
  shows "fst (watch spawn_error pings env s) = Halt
         \<and> status (snd (watch spawn_error pings env s)) = Exited 1
         \<and> execs (trace (snd (watch spawn_error pings env s)))
             = execs (trace s) @ [Build, Unpublish, Publish]"
proof -
  have km: "k \<le> maxAttempts" using k(2) by (simp add: maxAttempts_30)
  have sv: "startVerdaccio_part001 spawn_error pings s' =
     (Return (),
      s'\<lparr>verdaccioProcess := Some (ChildProcess False),
        clock := clock s' + 1000 * k,
        trace := trace s' @ [Console Out MStartingVerdaccio, SpawnRegistry]
                   @ spawn_lines spawn_error @ polls k @ [Console Out MVerdaccioReady]\<rparr>)"
    for s'
    by (rule startVerdaccio_part001_ready [OF t k(1) km k(3) earlier])
  show ?thesis
    unfolding watch_def
    by (cases "unpublish_result env")
       (simp_all add: sv b p buildLibs_def unpublish_def publish_def killChildProcesses_def
          process_exit_def io_defs execs_append execs_polls execs_spawn_lines)
qed

text \<open>C9: a spawn error whose message names \<^verbatim>\<open>EADDRINUSE\<close> is logged and startup goes on
  to the health check, which succeeds at the first request answered with 200, in the
  daemon and in the standalone script alike. Any other spawn error ends the process: in
  the daemon as an exception that leaves the listener uncaught, in the standalone script
  through the rejected promise, the fatal log, the kill and exit code 1.\<close>

theorem spawn_error_handling:
  "(includes_str (message e) ''EADDRINUSE'' \<and> 0 < k \<and> k \<le> 30 \<and> pings k = Status 200
      \<and> (\<forall>j. 0 < j \<and> j < k \<longrightarrow> pings j \<noteq> Status 200) \<longrightarrow>
        startVerdaccio (Some e) pings s =
          (Return (),
           s\<lparr>verdaccioProcess := Some (ChildProcess False),
             clock := clock s + 1000 * k,
             trace := trace s @
               [Console Out MStartingVerdaccio, SpawnRegistry,
                Console Err (MVerdaccioProcessError e)]
               @ polls k @ [Console Out MVerdaccioReady]\<rparr>)
        \<and> startVerdaccio_part001 (Some e) pings s = startVerdaccio (Some e) pings s)
   \<and> (\<not> includes_str (message e) ''EADDRINUSE'' \<longrightarrow>
        startWatchMode cwd fs (Some e) pings env s =
          (Halt,
           s\<lparr>verdaccioProcess := Some (ChildProcess False),
             trace := trace s @
               [Console Out MStartingWatchMode, Console Out MStartingVerdaccio,
                SpawnRegistry, Console Err (MVerdaccioProcessError e)],
             status := Uncaught e\<rparr>)
        \<and> watch (Some e) pings env s =
          (Halt,
           s\<lparr>verdaccioProcess := Some (ChildProcess True),
             trace := trace s @
               [Console Out MStartingWatchMode, Console Out MStartingVerdaccio,
                SpawnRegistry, Console Err (MVerdaccioProcessError e),
                Console Err (MFatal e), Kill, Exit 1],
             status := Exited 1\<rparr>))"
proof (intro conjI impI)
  assume a: "includes_str (message e) ''EADDRINUSE'' \<and> 0 < k \<and> k \<le> 30 \<and> pings k = Status 200
      \<and> (\<forall>j. 0 < j \<and> j < k \<longrightarrow> pings j \<noteq> Status 200)"
  then have t: "tolerated (Some e)" and k: "0 < k" "k \<le> maxAttempts" "pings k = Status 200"
    and first: "\<forall>j. 0 < j \<and> j < k \<longrightarrow> pings j \<noteq> Status 200"
    by (simp_all add: tolerated_def maxAttempts_30 del: includes_str.simps)
  show w: "startVerdaccio (Some e) pings s =
          (Return (),
           s\<lparr>verdaccioProcess := Some (ChildProcess False),
             clock := clock s + 1000 * k,
             trace := trace s @
               [Console Out MStartingVerdaccio, SpawnRegistry,
                Console Err (MVerdaccioProcessError e)]
               @ polls k @ [Console Out MVerdaccioReady]\<rparr>)"
    using startVerdaccio_ready [of "Some e" k pings s] t k first
    by (simp add: spawn_lines_def)
  show "startVerdaccio_part001 (Some e) pings s = startVerdaccio (Some e) pings s"
    unfolding w
    using startVerdaccio_part001_ready [of "Some e" k pings s] t k first
    by (simp add: spawn_lines_def)
next
  assume "\<not> includes_str (message e) ''EADDRINUSE''"
  then show "startWatchMode cwd fs (Some e) pings env s =
          (Halt,
           s\<lparr>verdaccioProcess := Some (ChildProcess False),
             trace := trace s @
               [Console Out MStartingWatchMode, Console Out MStartingVerdaccio,
                SpawnRegistry, Console Err (MVerdaccioProcessError e)],
             status := Uncaught e\<rparr>)"
    by (rule startWatchMode_crash)
next
  assume "\<not> includes_str (message e) ''EADDRINUSE''"
  then show "watch (Some e) pings env s =
          (Halt,
           s\<lparr>verdaccioProcess := Some (ChildProcess True),
             trace := trace s @
               [Console Out MStartingWatchMode, Console Out MStartingVerdaccio,
                SpawnRegistry, Console Err (MVerdaccioProcessError e),
                Console Err (MFatal e), Kill, Exit 1],
             status := Exited 1\<rparr>)"
    by (rule watch_reject)
qed


theorem spawn_error_handling_witness:
  "includes_str (message eaddrinuse) ''EADDRINUSE''
   \<and> (0::nat) < 3 \<and> (3::nat) \<le> 30 \<and> up_at_3 3 = Status 200
   \<and> up_at_3 1 = Status 503 \<and> up_at_3 2 = Status 503
   \<and> fst (startVerdaccio (Some eaddrinuse) up_at_3 idle_state) = Return ()
   \<and> fst (startVerdaccio_part001 (Some eaddrinuse) up_at_3 idle_state) = Return ()
   \<and> \<not> includes_str (message enoent) ''EADDRINUSE''
   \<and> status (snd (startWatchMode ''/repo'' sample_fs (Some enoent) up_at_3 all_ok idle_state))
       = Uncaught enoent
   \<and> status (snd (watch (Some enoent) up_at_3 all_ok idle_state)) = Exited 1"
proof -
  have inuse: "includes_str (message eaddrinuse) ''EADDRINUSE''"
    by (simp add: eaddrinuse_def Error_def)
  have other: "\<not> includes_str (message enoent) ''EADDRINUSE''"
    by (simp add: enoent_def Error_def)
  have up: "(0::nat) < 3 \<and> (3::nat) \<le> 30 \<and> up_at_3 3 = Status 200"
    and down: "up_at_3 1 = Status 503 \<and> up_at_3 2 = Status 503"
    by (simp_all add: up_at_3_def)
  have first: "\<forall>j. 0 < j \<and> j < 3 \<longrightarrow> up_at_3 j \<noteq> Status 200"
    by (simp add: up_at_3_def)
  note ok =
    spawn_error_handling
      [where e = eaddrinuse and k = 3 and pings = up_at_3 and s = idle_state
         and cwd = "''/repo''" and fs = sample_fs and env = all_ok,
       THEN conjunct1, THEN mp]
  note bad =
    spawn_error_handling
      [where e = enoent and k = 3 and pings = up_at_3 and s = idle_state
         and cwd = "''/repo''" and fs = sample_fs and env = all_ok,
       THEN conjunct2, THEN mp, OF other]
  have ready: "fst (startVerdaccio (Some eaddrinuse) up_at_3 idle_state) = Return ()"
    and ready': "fst (startVerdaccio_part001 (Some eaddrinuse) up_at_3 idle_state) = Return ()"
    using ok inuse up first by simp_all
  have crash:
    "status (snd (startWatchMode ''/repo'' sample_fs (Some enoent) up_at_3 all_ok idle_state))
       = Uncaught enoent"
    by (simp add: bad [THEN conjunct1])
  have exit: "status (snd (watch (Some enoent) up_at_3 all_ok idle_state)) = Exited 1"
    by (simp add: bad [THEN conjunct2])
  show ?thesis
    using inuse other up down ready ready' crash exit by simp
qed

text \<open>C6 as stated fails on the standalone boot script: a publish failure without the
  signature is thrown on by \<open>publish\<close>, and \<open>watch\<close> ends the process with code 1.\<close>

theorem publish_failure_counterexample:
  "publish_result publish_fails = Threw (Error ''E403'')
   \<and> \<not> includes_str ''E403'' ''cannot publish over''
   \<and> fst (publish (publish_result publish_fails) idle_state)
       = Throw (Error ''Publish failed: E403'')
   \<and> fst (watch None always_up publish_fails idle_state) = Halt
   \<and> status (snd (watch None always_up publish_fails idle_state)) = Exited 1"
  by (simp add: watch_publish_fails)
     (simp add: publish_fails_def all_ok_def publish_def io_defs Error_def)

section \<open>Debounced triggers\<close>

lemma fired_append: "fired (xs @ ys) = fired xs @ fired ys"
  by (induction xs rule: fired.induct) simp_all

lemma on_change_accepted:
  assumes "f \<noteq> []" and "\<not> shouldIgnore f"
  shows "on_change dir (Some f) s =
     (Return (),
      s\<lparr>rebuildTimer := Some (next_timer s),
        timers := (case rebuildTimer s of None \<Rightarrow> timers s
                   | Some h \<Rightarrow> filter (\<lambda>tm. fst tm \<noteq> h) (timers s))
                  @ [(next_timer s, clock s + 1000, GuardedRebuild)],
        next_timer := Suc (next_timer s),
        trace := trace s @ Console Out (MFileChanged (join dir f))
                  # (case rebuildTimer s of None \<Rightarrow> [] | Some h \<Rightarrow> [ClearTimeout h])
                  @ [SetTimeout (next_timer s) (clock s + 1000)]\<rparr>)"
  using assms
  by (cases "rebuildTimer s")
     (simp_all add: on_change_def logChange_def debounce_def clearTimeout_def setTimeout_def
        set_rebuildTimer_def io_defs)

lemma advance_none: "next_due t s = None \<Longrightarrow> advance world t s = s"
  by (subst advance.simps) simp

lemma advance_some:
  "next_due t s = Some tm \<Longrightarrow> advance world t s = advance world t (fire world tm s)"
  by (subst advance.simps) simp

lemma deliver_accepted:
  assumes run: "status s = Running" and quiet: "next_due t s = None"
    and acc: "accepted (t, ev)" and now: "clock s \<le> t"
  shows "\<exists>dir f. ev = FileChange dir (Some f) \<and>
         deliver world (t, ev) s =
           s\<lparr>rebuildTimer := Some (next_timer s),
             timers := (case rebuildTimer s of None \<Rightarrow> timers s
                   | Some h \<Rightarrow> filter (\<lambda>tm. fst tm \<noteq> h) (timers s))
                  @ [(next_timer s, t + 1000, GuardedRebuild)],
             next_timer := Suc (next_timer s),
             clock := t,
             trace := trace s @ Console Out (MFileChanged (join dir f))
                  # (case rebuildTimer s of None \<Rightarrow> [] | Some h \<Rightarrow> [ClearTimeout h])
                  @ [SetTimeout (next_timer s) (t + 1000)]\<rparr>"
proof -
  from acc obtain dir f where ev: "ev = FileChange dir (Some f)"
    and f: "f \<noteq> []" "\<not> shouldIgnore f"
    by (cases "(t, ev)" rule: accepted.cases) (auto split: if_splits)
  have m: "max (clock s) t = t" using now by simp
  show ?thesis
    using run
    by (cases "rebuildTimer s")
       (simp_all add: ev deliver_def advance_none [OF quiet] m callback_def uncaught_def
          on_change_accepted [OF f])
qed

lemma next_due_armed: "armed t' s \<Longrightarrow> t < t' + 1000 \<Longrightarrow> next_due t s = None"
  by (auto simp: armed_def next_due_def)

lemma next_due_quiet: "timers s = [] \<Longrightarrow> next_due t s = None"
  by (simp add: next_due_def)

lemma deliver_first:
  assumes "status s = Running" and "timers s = []" and "accepted (t, ev)" and "clock s \<le> t"
  shows "armed t (deliver world (t, ev) s)
         \<and> fired (trace (deliver world (t, ev) s)) = fired (trace s)
         \<and> execs (trace (deliver world (t, ev) s)) = execs (trace s)
         \<and> isRebuilding (deliver world (t, ev) s) = isRebuilding s"
proof -
  from deliver_accepted [OF assms(1) next_due_quiet [OF assms(2)] assms(3,4), of world]
  obtain dir f where "deliver world (t, ev) s =
           s\<lparr>rebuildTimer := Some (next_timer s),
             timers := (case rebuildTimer s of None \<Rightarrow> timers s
                   | Some h \<Rightarrow> filter (\<lambda>tm. fst tm \<noteq> h) (timers s))
                  @ [(next_timer s, t + 1000, GuardedRebuild)],
             next_timer := Suc (next_timer s),
             clock := t,
             trace := trace s @ Console Out (MFileChanged (join dir f))
                  # (case rebuildTimer s of None \<Rightarrow> [] | Some h \<Rightarrow> [ClearTimeout h])
                  @ [SetTimeout (next_timer s) (t + 1000)]\<rparr>"
    by blast
  then show ?thesis
    using assms(1,2)
    by (simp add: armed_def fired_append execs_append split: option.splits)
qed

lemma deliver_next:
  assumes "armed t' s" and "t' \<le> t" and "t < t' + 1000" and "accepted (t, ev)"
  shows "armed t (deliver world (t, ev) s)
         \<and> fired (trace (deliver world (t, ev) s)) = fired (trace s)
         \<and> execs (trace (deliver world (t, ev) s)) = execs (trace s)
         \<and> isRebuilding (deliver world (t, ev) s) = isRebuilding s"
proof -
  have run: "status s = Running" and now: "clock s \<le> t"
    using assms(1,2) by (simp_all add: armed_def)
  from deliver_accepted [OF run next_due_armed [OF assms(1,3)] assms(4) now, of world]
  obtain dir f where "deliver world (t, ev) s =
           s\<lparr>rebuildTimer := Some (next_timer s),
             timers := (case rebuildTimer s of None \<Rightarrow> timers s
                   | Some h \<Rightarrow> filter (\<lambda>tm. fst tm \<noteq> h) (timers s))
                  @ [(next_timer s, t + 1000, GuardedRebuild)],
             next_timer := Suc (next_timer s),
             clock := t,
             trace := trace s @ Console Out (MFileChanged (join dir f))
                  # (case rebuildTimer s of None \<Rightarrow> [] | Some h \<Rightarrow> [ClearTimeout h])
                  @ [SetTimeout (next_timer s) (t + 1000)]\<rparr>"
    by blast
  then show ?thesis
    using assms(1)
    by (auto simp: armed_def fired_append execs_append)
qed

lemma run_burst:
  assumes "armed t' s" and "burst 1000 (t' # map fst evs)" and "list_all accepted evs"
  shows "armed (last (t' # map fst evs)) (run world evs s)
         \<and> fired (trace (run world evs s)) = fired (trace s)
         \<and> execs (trace (run world evs s)) = execs (trace s)
         \<and> isRebuilding (run world evs s) = isRebuilding s"
  using assms
proof (induction evs arbitrary: t' s)
  case Nil
  then show ?case by simp
next
  case (Cons ev evs)
  obtain t e where ev: "ev = (t, e)" by (cases ev)
  from Cons.prems ev have t: "t' \<le> t" "t < t' + 1000" and rest: "burst 1000 (t # map fst evs)"
    and acc: "accepted (t, e)" and accs: "list_all accepted evs"
    by simp_all
  note step = deliver_next [OF Cons.prems(1) t acc, of world]
  from Cons.IH [OF step [THEN conjunct1] rest accs] step
  show ?case
    by (simp add: ev)
qed

lemma fire_armed:
  assumes "armed t s" and "t + 1000 \<le> T"
  shows "fired (trace (advance world T s)) = fired (trace s) @ [t + 1000]
         \<and> (\<not> isRebuilding s \<longrightarrow>
              count_list (execs (trace (advance world T s))) Build
                = Suc (count_list (execs (trace s)) Build))
         \<and> (isRebuilding s \<longrightarrow> execs (trace (advance world T s)) = execs (trace s))
         \<and> timers (advance world T s) = []"
proof -
  from assms(1) obtain h where run: "status s = Running" and clk: "clock s = t"
    and tm: "timers s = [(h, t + 1000, GuardedRebuild)]"
    by (auto simp: armed_def)
  have due: "next_due T s = Some (h, t + 1000, GuardedRebuild)"
    using run tm assms(2) by (simp add: next_due_def)
  let ?s1 = "fire world (h, t + 1000, GuardedRebuild) s"
  have t1: "timers ?s1 = []"
    by (simp add: fire_timers tm)
  have adv: "advance world T s = ?s1"
    by (simp add: advance_some [OF due] advance_none [OF next_due_quiet [OF t1]])
  have m: "max t (t + 1000) = t + 1000" by simp
  have busy: "?s1 = s\<lparr>timers := [], clock := t + 1000,
                       trace := trace s @ [Fire h (t + 1000)]\<rparr>" if "isRebuilding s"
    using that run
    by (simp add: fire_def Let_def clk m tm callback_def uncaught_def run_action_def
          if_then_def ret_def emit_def)
  have idle: "?s1 = s\<lparr>timers := [], clock := t + 1000,
                       trace := trace s @ Fire h (t + 1000) # Console Out MRebuilding
                                  # pipeline_trace (world (t + 1000))\<rparr>"
    if "\<not> isRebuilding s"
    using that run
    by (simp add: fire_def Let_def clk m tm callback_def uncaught_def run_action_def
          if_then_def emit_def rebuild_eq)
  have fp: "fired (pipeline_trace env) = []" for env
    by (cases "build_result env"; cases "unpublish_result env"; cases "publish_result env")
       (simp_all add: pipeline_trace_def build_trace_def clean_trace_def publish_trace_def
          opt_line_def fired_append split: option.splits)
  have ep: "count_list (execs (pipeline_trace env)) Build = 1" for env
    by (cases "build_result env")
       (simp_all add: pipeline_trace_def execs_append execs_build_trace execs_clean_trace
          execs_publish_trace)
  show ?thesis
  proof (cases "isRebuilding s")
    case True
    then show ?thesis
      by (simp add: adv busy fired_append execs_append)
  next
    case False
    then show ?thesis
      using ep [of "world (t + 1000)"]
      by (simp add: adv idle fired_append execs_append fp)
  qed
qed


lemma debounce_rearms:
  assumes "timers s = [(h, d, a)]" and "rebuildTimer s = Some h"
  shows "debounce func delay s =
     (Return (),
      s\<lparr>rebuildTimer := Some (next_timer s),
        timers := [(next_timer s, clock s + delay, func)],
        next_timer := Suc (next_timer s),
        trace := trace s @ [ClearTimeout h, SetTimeout (next_timer s) (clock s + delay)]\<rparr>)"
  using assms
  by (simp add: debounce_def clearTimeout_def setTimeout_def set_rebuildTimer_def io_defs)

lemma advance_single:
  assumes "status s = Running" and "timers s = [(h, due, a)]" and "due \<le> T"
  shows "advance world T s = fire world (h, due, a) s"
proof -
  have due: "next_due T s = Some (h, due, a)"
    using assms by (simp add: next_due_def)
  have "timers (fire world (h, due, a) s) = []"
    by (simp add: fire_timers assms(2))
  then show ?thesis
    by (simp add: advance_some [OF due] advance_none [OF next_due_quiet])
qed

lemma index_ts_accepted: "accepted (t, FileChange dir (Some ''index.ts''))"
  by (simp add: shouldIgnore_def IGNORED_PATTERNS_def pattern_matches_def parse_atom_def
        line_terminator_def)

text \<open>C2: a burst of one or more accepted change events, each less than 1000 ms after
  the one before, leads to exactly one firing of the debounced action, 1000 ms after the
  last event of the burst, and (from an idle state) to exactly one build; a call of
  \<open>debounce\<close> with a timer armed cancels that timer and arms a new one.\<close>

theorem debounce_burst_fires_once:
  assumes "status s = Running" and "timers s = []"
    and "evs \<noteq> []" and "list_all accepted evs"
    and "clock s \<le> fst (hd evs)" and "burst 1000 (map fst evs)"
    and "fst (last evs) + 1000 \<le> T"
  shows "fired (trace (advance world T (run world evs s)))
           = fired (trace s) @ [fst (last evs) + 1000]
         \<and> (\<not> isRebuilding s \<longrightarrow>
              count_list (execs (trace (advance world T (run world evs s)))) Build
                = Suc (count_list (execs (trace s)) Build))
         \<and> timers (advance world T (run world evs s)) = []
         \<and> (timers s' = [(h, d, a)] \<and> rebuildTimer s' = Some h \<longrightarrow>
              debounce func delay s' =
                (Return (),
                 s'\<lparr>rebuildTimer := Some (next_timer s'),
                    timers := [(next_timer s', clock s' + delay, func)],
                    next_timer := Suc (next_timer s'),
                    trace := trace s' @
                      [ClearTimeout h, SetTimeout (next_timer s') (clock s' + delay)]\<rparr>))"
proof -
  from assms(3) obtain ev rest where evs: "evs = ev # rest" by (cases evs) auto
  obtain t e where ev: "ev = (t, e)" by (cases ev)
  have acc: "accepted (t, e)" and accs: "list_all accepted rest"
    and now: "clock s \<le> t" and chain: "burst 1000 (t # map fst rest)"
    using assms(4,5,6) by (simp_all add: evs ev)
  note first = deliver_first [OF assms(1,2) acc now, of world]
  note rest = run_burst [OF first [THEN conjunct1] chain accs, of world]
  have l: "last (t # map fst rest) = fst (last evs)"
    by (simp add: evs ev last_map)
  let ?s1 = "run world evs s"
  have s1: "?s1 = run world rest (deliver world (t, e) s)"
    by (simp add: evs ev)
  note rest' = rest [unfolded l, folded s1]
  have a1: "armed (fst (last evs)) ?s1"
    by (rule rest' [THEN conjunct1])
  have f1: "fired (trace ?s1) = fired (trace s)"
    using rest' [THEN conjunct2, THEN conjunct1] first by simp
  have e1: "execs (trace ?s1) = execs (trace s)"
    using rest' [THEN conjunct2, THEN conjunct2, THEN conjunct1] first by simp
  have r1: "isRebuilding ?s1 = isRebuilding s"
    using rest' [THEN conjunct2, THEN conjunct2, THEN conjunct2] first by simp
  note fin = fire_armed [OF a1 assms(7), of world]
  show ?thesis
    using fin debounce_rearms [of s' h d a func delay]
    by (simp add: f1 e1 r1)
qed

theorem debounce_burst_fires_once_witness:
  "status idle_state = Running \<and> timers idle_state = [] \<and> two_changes \<noteq> []
   \<and> list_all accepted two_changes
   \<and> clock idle_state \<le> fst (hd two_changes) \<and> burst 1000 (map fst two_changes)
   \<and> fst (last two_changes) + 1000 \<le> 1200
   \<and> fired (trace (advance calm_world 1200 (run calm_world two_changes idle_state))) = [1200]
   \<and> count_list (execs (trace (advance calm_world 1200 (run calm_world two_changes idle_state))))
        Build = 1
   \<and> timers armed_state = [(0, 1000, GuardedRebuild)] \<and> rebuildTimer armed_state = Some 0
   \<and> snd (debounce GuardedRebuild 1000 armed_state) =
        armed_state\<lparr>rebuildTimer := Some 1, timers := [(1, 1000, GuardedRebuild)],
          next_timer := 2, trace := [ClearTimeout 0, SetTimeout 1 1000]\<rparr>"
proof -
  have h: "status idle_state = Running" "timers idle_state = []" "two_changes \<noteq> []"
    "list_all accepted two_changes" "clock idle_state \<le> fst (hd two_changes)"
    "burst 1000 (map fst two_changes)" "fst (last two_changes) + 1000 \<le> 1200"
    by (simp_all add: idle_state_def two_changes_def index_ts_accepted del: accepted.simps)
  have a: "timers armed_state = [(0, 1000, GuardedRebuild)] \<and> rebuildTimer armed_state = Some 0"
    by (simp add: armed_state_def)
  have idle: "\<not> isRebuilding idle_state"
    by (simp add: idle_state_def)
  note w = debounce_burst_fires_once
      [OF h, where world = calm_world and s' = armed_state and h = 0 and d = 1000
         and a = GuardedRebuild and func = GuardedRebuild and delay = 1000]
  have f: "fired (trace (advance calm_world 1200 (run calm_world two_changes idle_state))) = [1200]"
    using w [THEN conjunct1] by (simp add: idle_state_def two_changes_def)
  have b: "count_list (execs (trace (advance calm_world 1200 (run calm_world two_changes idle_state))))
        Build = 1"
    using w [THEN conjunct2, THEN conjunct1, THEN mp, OF idle] by (simp add: idle_state_def)
  have d: "snd (debounce GuardedRebuild 1000 armed_state) =
        armed_state\<lparr>rebuildTimer := Some 1, timers := [(1, 1000, GuardedRebuild)],
          next_timer := 2, trace := [ClearTimeout 0, SetTimeout 1 1000]\<rparr>"
    using w [THEN conjunct2, THEN conjunct2, THEN conjunct2, THEN mp, OF a]
    by (simp add: armed_state_def idle_state_def)
  show ?thesis
    using h a f b d by simp
qed

text \<open>C10: when the debounce timer fires while the rebuild flag is set, the action does
  nothing: no command runs and no timer is left, so nothing starts once the flag is idle
  again, however long one waits; only a new accepted change event leads to a build.\<close>

theorem timer_during_rebuild_is_dropped:
  assumes "status s = Running" and "isRebuilding s"
    and "timers s = [(h, due, GuardedRebuild)]" and "due \<le> T"
  shows "advance world T s =
           s\<lparr>timers := [], clock := max (clock s) due,
             trace := trace s @ [Fire h (max (clock s) due)]\<rparr>
         \<and> execs (trace (advance world T s)) = execs (trace s)
         \<and> advance world T' ((advance world T s)\<lparr>isRebuilding := False\<rparr>)
             = (advance world T s)\<lparr>isRebuilding := False\<rparr>
         \<and> (accepted (t, ev) \<and> max (clock s) due \<le> t \<and> t + 1000 \<le> T' \<longrightarrow>
              count_list
                (execs (trace (advance world T'
                   (deliver world (t, ev) ((advance world T s)\<lparr>isRebuilding := False\<rparr>)))))
                Build
              = Suc (count_list (execs (trace s)) Build))"
proof -
  let ?s1 = "s\<lparr>timers := [], clock := max (clock s) due,
             trace := trace s @ [Fire h (max (clock s) due)]\<rparr>"
  have adv: "advance world T s = ?s1"
    using assms(1,2)
    by (simp add: advance_single [OF assms(1,3,4)] fire_def Let_def assms(3) callback_def
          uncaught_def run_action_def if_then_def ret_def emit_def)
  let ?s2 = "?s1\<lparr>isRebuilding := False\<rparr>"
  have quiet: "timers ?s2 = []" and run: "status ?s2 = Running"
    using assms(1) by simp_all
  have later: "advance world T' ?s2 = ?s2"
    by (rule advance_none) (rule next_due_quiet [OF quiet])
  have again: "count_list (execs (trace (advance world T' (deliver world (t, ev) ?s2)))) Build
              = Suc (count_list (execs (trace s)) Build)"
    if "accepted (t, ev) \<and> max (clock s) due \<le> t \<and> t + 1000 \<le> T'"
  proof -
    from that have acc: "accepted (t, ev)" and now: "clock ?s2 \<le> t" and T': "t + 1000 \<le> T'"
      by simp_all
    note d = deliver_first [OF run quiet acc now, of world]
    note f = fire_armed [OF d [THEN conjunct1] T', of world]
    have idle: "\<not> isRebuilding (deliver world (t, ev) ?s2)"
      using d by simp
    have "execs (trace (deliver world (t, ev) ?s2)) = execs (trace s)"
      using d by (simp add: execs_append)
    with f idle show ?thesis by simp
  qed
  show ?thesis
    unfolding adv using later again by (simp add: execs_append)
qed

theorem timer_during_rebuild_is_dropped_witness:
  "status busy_armed_state = Running \<and> isRebuilding busy_armed_state
   \<and> timers busy_armed_state = [(0, 1000, GuardedRebuild)] \<and> (1000::nat) \<le> 1000
   \<and> advance calm_world 1000 busy_armed_state =
        busy_armed_state\<lparr>timers := [], clock := 1000, trace := [Fire 0 1000]\<rparr>
   \<and> execs (trace (advance calm_world 1000 busy_armed_state)) = []
   \<and> advance calm_world 5000 ((advance calm_world 1000 busy_armed_state)\<lparr>isRebuilding := False\<rparr>)
       = (advance calm_world 1000 busy_armed_state)\<lparr>isRebuilding := False\<rparr>
   \<and> accepted (2000, FileChange ''/repo/libs/foo/src'' (Some ''index.ts''))
   \<and> count_list
        (execs (trace (advance calm_world 5000
           (deliver calm_world (2000, FileChange ''/repo/libs/foo/src'' (Some ''index.ts''))
              ((advance calm_world 1000 busy_armed_state)\<lparr>isRebuilding := False\<rparr>)))))
        Build = 1"
proof -
  have h: "status busy_armed_state = Running" "isRebuilding busy_armed_state"
    "timers busy_armed_state = [(0, 1000, GuardedRebuild)]" "(1000::nat) \<le> 1000"
    by (simp_all add: busy_armed_state_def armed_state_def idle_state_def)
  have acc: "accepted (2000, FileChange ''/repo/libs/foo/src'' (Some ''index.ts''))"
    by (rule index_ts_accepted)
  note w = timer_during_rebuild_is_dropped
      [OF h, where world = calm_world and T' = 5000 and t = 2000
         and ev = "FileChange ''/repo/libs/foo/src'' (Some ''index.ts'')"]
  have c: "clock busy_armed_state = 0" "trace busy_armed_state = []"
    by (simp_all add: busy_armed_state_def armed_state_def idle_state_def)
  have 1: "advance calm_world 1000 busy_armed_state =
        busy_armed_state\<lparr>timers := [], clock := 1000, trace := [Fire 0 1000]\<rparr>"
    using w [THEN conjunct1] by (simp add: c)
  have 2: "execs (trace (advance calm_world 1000 busy_armed_state)) = []"
    using w [THEN conjunct2, THEN conjunct1] by (simp add: c)
  note 3 = w [THEN conjunct2, THEN conjunct2, THEN conjunct1]
  have 4: "count_list
        (execs (trace (advance calm_world 5000
           (deliver calm_world (2000, FileChange ''/repo/libs/foo/src'' (Some ''index.ts''))
              ((advance calm_world 1000 busy_armed_state)\<lparr>isRebuilding := False\<rparr>)))))
        Build = 1"
    using w [THEN conjunct2, THEN conjunct2, THEN conjunct2, THEN mp] acc by (simp add: c)
  show ?thesis
    using h acc 1 2 3 4 by simp
qed

section \<open>Single flight\<close>

lemma flight_append:
  "flight a (xs @ ys) = (case flight a xs of None \<Rightarrow> None | Some b \<Rightarrow> flight b ys)"
  by (induction xs arbitrary: a) (simp_all split: mark.splits)

lemma flight_other: "list_all (\<lambda>e. mark_of e = Other) es \<Longrightarrow> flight a es = Some a"
  by (induction es) simp_all

lemma other_build_trace: "list_all (\<lambda>e. mark_of e = Other) (build_trace r)"
  by (cases r) (simp_all add: build_trace_def)

lemma other_clean_trace: "list_all (\<lambda>e. mark_of e = Other) (clean_trace r)"
  by (cases r) (simp_all add: clean_trace_def opt_line_def split: option.splits)

lemma other_publish_trace: "list_all (\<lambda>e. mark_of e = Other) (publish_trace r)"
  by (cases r) (simp_all add: publish_trace_def)

lemma flight_pipeline_trace: "flight True (pipeline_trace env) = Some False"
  by (cases "build_result env")
     (simp_all add: pipeline_trace_def flight_append flight_other other_build_trace
        other_clean_trace other_publish_trace)

lemma single_flight_other:
  assumes "single_flight a s" and "trace s' = trace s @ es"
    and "list_all (\<lambda>e. mark_of e = Other) es" and "isRebuilding s' = isRebuilding s"
  shows "single_flight a s'"
  using assms by (simp add: single_flight_def flight_append flight_other)

lemma single_flight_rebuild:
  assumes "single_flight a s"
  shows "single_flight a (snd (rebuild env s))"
proof (cases "isRebuilding s")
  case True
  have "rebuild env s = (Return (), s\<lparr>trace := trace s @ [Console Out MRebuildInProgress]\<rparr>)"
    using True by (simp add: rebuild_def console_log_def emit_def)
  then show ?thesis
    using assms by (simp add: single_flight_def flight_append)
next
  case False
  then have a: "a = False" using assms by (simp add: single_flight_def)
  show ?thesis
    using assms False
    by (simp add: rebuild_eq single_flight_def flight_append flight_pipeline_trace a)
qed

lemma single_flight_run_action:
  assumes "single_flight a s"
  shows "single_flight a (snd (run_action world GuardedRebuild s))"
proof (cases "isRebuilding s")
  case True
  then have "run_action world GuardedRebuild s = (Return (), s)"
    by (simp add: run_action_def if_then_def ret_def)
  then show ?thesis using assms by simp
next
  case False
  then have "run_action world GuardedRebuild s = rebuild (world (clock s)) s"
    by (simp add: run_action_def if_then_def)
  then show ?thesis using single_flight_rebuild [OF assms] by simp
qed

lemma single_flight_status: "single_flight a (s\<lparr>status := x\<rparr>) = single_flight a s"
  by (simp add: single_flight_def)

lemma single_flight_clock: "single_flight a (s\<lparr>clock := x\<rparr>) = single_flight a s"
  by (simp add: single_flight_def)

lemma single_flight_callback:
  assumes m: "single_flight a (snd (m s))"
    and s: "single_flight a s"
  shows "single_flight a (callback m s)"
proof (cases "status s = Running")
  case False
  then show ?thesis using s by (simp add: callback_def)
next
  case True
  obtain r s' where ms: "m s = (r, s')" by (cases "m s")
  have "single_flight a s'" using m by (simp add: ms)
  then have "single_flight a (snd (uncaught m s))"
    by (cases r) (simp_all add: uncaught_def ms single_flight_status)
  then show ?thesis using True by (simp add: callback_def)
qed

lemma single_flight_fire:
  assumes "single_flight a s"
  shows "single_flight a (fire world tm s)"
proof -
  let ?s1 = "(emit (Fire (fst tm) (max (clock s) (fst (snd tm)))) s)
              \<lparr>timers := filter (\<lambda>x. fst x \<noteq> fst tm) (timers s),
               clock := max (clock s) (fst (snd tm))\<rparr>"
  have s1: "single_flight a ?s1"
    by (rule single_flight_other [OF assms, of _ "[Fire (fst tm) (max (clock s) (fst (snd tm)))]"])
       (simp_all add: emit_def)
  have act: "snd (snd tm) = GuardedRebuild" by (cases "snd (snd tm)")
  have "single_flight a (callback (run_action world GuardedRebuild) ?s1)"
    using single_flight_run_action [OF s1, of world] s1
    by (rule single_flight_callback [of a "run_action world GuardedRebuild"])
  then show ?thesis
    by (simp add: fire_def Let_def act)
qed

lemma single_flight_advance:
  "single_flight a s \<Longrightarrow> single_flight a (advance world t s)"
proof (induction world t s rule: advance.induct)
  case (1 world t s)
  show ?case
  proof (cases "next_due t s")
    case None
    then show ?thesis using "1.prems" by (simp add: advance_none)
  next
    case (Some tm)
    from "1.IH" [OF Some single_flight_fire [OF "1.prems"]]
    show ?thesis by (simp add: advance_some [OF Some])
  qed
qed

lemma single_flight_on_change:
  assumes "single_flight a s"
  shows "single_flight a (snd (on_change dir filename s))"
proof (cases filename)
  case None
  then show ?thesis using assms by (simp add: on_change_def ret_def)
next
  case (Some f)
  show ?thesis
  proof (cases "f = [] \<or> shouldIgnore f")
    case True
    then show ?thesis using assms Some by (auto simp: on_change_def ret_def)
  next
    case False
    then have f: "f \<noteq> []" "\<not> shouldIgnore f" by simp_all
    show ?thesis
      unfolding Some on_change_accepted [OF f]
      using assms
      by (cases "rebuildTimer s")
         (simp_all add: single_flight_def flight_append)
  qed
qed

lemma single_flight_on_sigint:
  assumes "single_flight a s"
  shows "single_flight a (snd (on_sigint s))"
  using assms
  by (cases "verdaccioProcess s")
     (simp_all add: on_sigint_def killChildProcesses_def process_exit_def seq_def bind_def
        console_log_def emit_def single_flight_def flight_append)

lemma single_flight_handler:
  "single_flight a s \<Longrightarrow> single_flight a (snd (handler ev s))"
  by (cases ev) (simp_all add: single_flight_on_change single_flight_on_sigint)

lemma single_flight_deliver:
  assumes "single_flight a s"
  shows "single_flight a (deliver world ev s)"
proof -
  let ?s1 = "advance world (fst ev) s"
  let ?s2 = "?s1\<lparr>clock := max (clock ?s1) (fst ev)\<rparr>"
  have s2: "single_flight a ?s2"
    using single_flight_advance [OF assms, of world "fst ev"] by (simp add: single_flight_clock)
  have "single_flight a (callback (handler (snd ev)) ?s2)"
    using single_flight_handler [OF s2, of "snd ev"] s2
    by (rule single_flight_callback [of a "handler (snd ev)"])
  then show ?thesis by (simp add: deliver_def Let_def)
qed

lemma single_flight_run:
  "single_flight a s \<Longrightarrow> single_flight a (run world evs s)"
  by (induction evs arbitrary: s) (simp_all add: single_flight_deliver)


lemma held_other:
  assumes "held cs s" and "trace s' = trace s @ es"
    and "execs es = []" and "isRebuilding s' = isRebuilding s"
  shows "held cs s'"
  using assms by (simp add: held_def execs_append)

lemma held_run_action:
  assumes "held cs s"
  shows "held cs (snd (run_action world GuardedRebuild s))"
proof -
  have "isRebuilding s" using assms by (simp add: held_def)
  then have "run_action world GuardedRebuild s = (Return (), s)"
    by (simp add: run_action_def if_then_def ret_def)
  then show ?thesis using assms by simp
qed

lemma held_status: "held cs (s\<lparr>status := x\<rparr>) = held cs s"
  by (simp add: held_def)

lemma held_clock: "held cs (s\<lparr>clock := x\<rparr>) = held cs s"
  by (simp add: held_def)

lemma held_callback:
  assumes m: "held cs (snd (m s))"
    and s: "held cs s"
  shows "held cs (callback m s)"
proof (cases "status s = Running")
  case False
  then show ?thesis using s by (simp add: callback_def)
next
  case True
  obtain r s' where ms: "m s = (r, s')" by (cases "m s")
  have "held cs s'" using m by (simp add: ms)
  then have "held cs (snd (uncaught m s))"
    by (cases r) (simp_all add: uncaught_def ms held_status)
  then show ?thesis using True by (simp add: callback_def)
qed

lemma held_fire:
  assumes "held cs s"
  shows "held cs (fire world tm s)"
proof -
  let ?s1 = "(emit (Fire (fst tm) (max (clock s) (fst (snd tm)))) s)
              \<lparr>timers := filter (\<lambda>x. fst x \<noteq> fst tm) (timers s),
               clock := max (clock s) (fst (snd tm))\<rparr>"
  have s1: "held cs ?s1"
    by (rule held_other [OF assms, of _ "[Fire (fst tm) (max (clock s) (fst (snd tm)))]"])
       (simp_all add: emit_def)
  have act: "snd (snd tm) = GuardedRebuild" by (cases "snd (snd tm)")
  have "held cs (callback (run_action world GuardedRebuild) ?s1)"
    using held_run_action [OF s1, of world] s1
    by (rule held_callback [of cs "run_action world GuardedRebuild"])
  then show ?thesis
    by (simp add: fire_def Let_def act)
qed

lemma held_advance: "held cs s \<Longrightarrow> held cs (advance world t s)"
proof (induction world t s rule: advance.induct)
  case (1 world t s)
  show ?case
  proof (cases "next_due t s")
    case None
    then show ?thesis using "1.prems" by (simp add: advance_none)
  next
    case (Some tm)
    from "1.IH" [OF Some held_fire [OF "1.prems"]]
    show ?thesis by (simp add: advance_some [OF Some])
  qed
qed

lemma held_on_change:
  assumes "held cs s"
  shows "held cs (snd (on_change dir filename s))"
proof (cases filename)
  case None
  then show ?thesis using assms by (simp add: on_change_def ret_def)
next
  case (Some f)
  show ?thesis
  proof (cases "f = [] \<or> shouldIgnore f")
    case True
    then show ?thesis using assms Some by (auto simp: on_change_def ret_def)
  next
    case False
    then have f: "f \<noteq> []" "\<not> shouldIgnore f" by simp_all
    show ?thesis
      unfolding Some on_change_accepted [OF f]
      using assms
      by (cases "rebuildTimer s") (simp_all add: held_def execs_append)
  qed
qed

lemma held_on_sigint:
  assumes "held cs s"
  shows "held cs (snd (on_sigint s))"
  using assms
  by (cases "verdaccioProcess s")
     (simp_all add: on_sigint_def killChildProcesses_def process_exit_def seq_def bind_def
        console_log_def emit_def held_def execs_append)

lemma held_handler: "held cs s \<Longrightarrow> held cs (snd (handler ev s))"
  by (cases ev) (simp_all add: held_on_change held_on_sigint)

lemma held_deliver:
  assumes "held cs s"
  shows "held cs (deliver world ev s)"
proof -
  let ?s1 = "advance world (fst ev) s"
  let ?s2 = "?s1\<lparr>clock := max (clock ?s1) (fst ev)\<rparr>"
  have s2: "held cs ?s2"
    using held_advance [OF assms, of world "fst ev"] by (simp add: held_clock)
  have "held cs (callback (handler (snd ev)) ?s2)"
    using held_handler [OF s2, of "snd ev"] s2
    by (rule held_callback [of cs "handler (snd ev)"])
  then show ?thesis by (simp add: deliver_def Let_def)
qed

lemma held_run: "held cs s \<Longrightarrow> held cs (run world evs s)"
  by (induction evs arbitrary: s) (simp_all add: held_deliver)

lemma busy_runs_nothing:
  assumes "isRebuilding s"
  shows "execs (trace (advance world T (run world evs s))) = execs (trace s)"
proof -
  have "held (execs (trace s)) s" using assms by (simp add: held_def)
  then have "held (execs (trace s)) (advance world T (run world evs s))"
    by (intro held_advance held_run)
  then show ?thesis by (simp add: held_def)
qed

text \<open>C1: a call of \<open>rebuild\<close> while a rebuild is in progress only logs a line and
  returns, running no command; a run started from idle is the \<^verbatim>\<open>try\<close> statement entered
  with the flag set, and none of its three steps changes the flag, so the flag is set for
  as long as the run lasts. Over the event loop: from a state whose trace has no
  overlapping runs and whose flag says whether a run is in flight, no sequence of events
  and timer firings makes a run begin while another is in flight; and from a state with
  the flag set, no sequence of events and timer firings runs a command.\<close>

theorem rebuild_in_progress_returns:
  "(isRebuilding s \<longrightarrow>
      rebuild env s = (Return (), s\<lparr>trace := trace s @ [Console Out MRebuildInProgress]\<rparr>)
      \<and> execs (trace (snd (rebuild env s))) = execs (trace s))
   \<and> (\<not> isRebuilding s \<longrightarrow>
        rebuild env s
          = rebuild_try env (emit (Console Out MRebuilding) (s\<lparr>isRebuilding := True\<rparr>)))
   \<and> isRebuilding (snd (buildLibraries r s)) = isRebuilding s
   \<and> isRebuilding (snd (cleanRegistry r s)) = isRebuilding s
   \<and> isRebuilding (snd (publishPackages r s)) = isRebuilding s
   \<and> (single_flight a s0 \<longrightarrow> single_flight a (advance world T (run world evs s0)))
   \<and> (isRebuilding s0 \<longrightarrow>
        execs (trace (advance world T (run world evs s0))) = execs (trace s0))"
proof (intro conjI impI)
  assume busy: "isRebuilding s"
  then show r: "rebuild env s = (Return (), s\<lparr>trace := trace s @ [Console Out MRebuildInProgress]\<rparr>)"
    by (simp add: rebuild_def console_log_def emit_def)
  show "execs (trace (snd (rebuild env s))) = execs (trace s)"
    by (simp add: r execs_append)
next
  assume "\<not> isRebuilding s"
  then show "rebuild env s
          = rebuild_try env (emit (Console Out MRebuilding) (s\<lparr>isRebuilding := True\<rparr>))"
    by (rule rebuild_enters)
next
  show "isRebuilding (snd (buildLibraries r s)) = isRebuilding s"
    by (simp add: step_keeps_flag)
  show "isRebuilding (snd (cleanRegistry r s)) = isRebuilding s"
    by (simp add: step_keeps_flag)
  show "isRebuilding (snd (publishPackages r s)) = isRebuilding s"
    by (simp add: step_keeps_flag)
next
  assume "single_flight a s0"
  then show "single_flight a (advance world T (run world evs s0))"
    by (intro single_flight_advance single_flight_run)
next
  assume "isRebuilding s0"
  then show "execs (trace (advance world T (run world evs s0))) = execs (trace s0)"
    by (rule busy_runs_nothing)
qed

theorem rebuild_in_progress_returns_witness:
  "isRebuilding busy_state
   \<and> rebuild all_ok busy_state
       = (Return (), busy_state\<lparr>trace := [Console Out MRebuildInProgress]\<rparr>)
   \<and> execs (trace (snd (rebuild all_ok busy_state))) = []
   \<and> \<not> isRebuilding idle_state
   \<and> rebuild all_ok idle_state
       = rebuild_try all_ok (emit (Console Out MRebuilding) (idle_state\<lparr>isRebuilding := True\<rparr>))
   \<and> single_flight True mid_run_state
   \<and> single_flight True (advance calm_world 5000 (run calm_world two_changes mid_run_state))
   \<and> isRebuilding mid_run_state
   \<and> execs (trace (advance calm_world 5000 (run calm_world two_changes mid_run_state))) = []
   \<and> single_flight False idle_state
   \<and> single_flight False (advance calm_world 5000 (run calm_world two_changes idle_state))"
proof -
  have busy: "isRebuilding busy_state" and idle: "\<not> isRebuilding idle_state"
    by (simp_all add: busy_state_def idle_state_def)
  have mid: "single_flight True mid_run_state"
    by (simp add: single_flight_def mid_run_state_def busy_armed_state_def armed_state_def
          idle_state_def)
  have start: "single_flight False idle_state"
    by (simp add: single_flight_def idle_state_def)
  note g = rebuild_in_progress_returns
      [where s = busy_state and env = all_ok, THEN conjunct1, THEN mp, OF busy]
  note e = rebuild_in_progress_returns
      [where s = idle_state and env = all_ok, THEN conjunct2, THEN conjunct1, THEN mp, OF idle]
  note m = rebuild_in_progress_returns
      [where a = True and ?s0.0 = mid_run_state and world = calm_world and T = 5000
         and evs = two_changes,
       THEN conjunct2, THEN conjunct2, THEN conjunct2, THEN conjunct2, THEN conjunct2,
       THEN conjunct1, THEN mp, OF mid]
  have flagged: "isRebuilding mid_run_state" and fresh: "execs (trace mid_run_state) = []"
    by (simp_all add: mid_run_state_def busy_armed_state_def armed_state_def idle_state_def)
  note q = rebuild_in_progress_returns
      [where ?s0.0 = mid_run_state and world = calm_world and T = 5000 and evs = two_changes,
       THEN conjunct2, THEN conjunct2, THEN conjunct2, THEN conjunct2, THEN conjunct2,
       THEN conjunct2, THEN mp, OF flagged]
  note i = rebuild_in_progress_returns
      [where a = False and ?s0.0 = idle_state and world = calm_world and T = 5000
         and evs = two_changes,
       THEN conjunct2, THEN conjunct2, THEN conjunct2, THEN conjunct2, THEN conjunct2,
       THEN conjunct1, THEN mp, OF start]
  have 1: "rebuild all_ok busy_state
       = (Return (), busy_state\<lparr>trace := [Console Out MRebuildInProgress]\<rparr>)"
    using g [THEN conjunct1] by (simp add: busy_state_def idle_state_def)
  have 2: "execs (trace (snd (rebuild all_ok busy_state))) = []"
    using g [THEN conjunct2] by (simp add: busy_state_def idle_state_def)
  show ?thesis
    using busy idle 1 2 e mid m start i flagged q by (simp add: fresh)
qed

section \<open>The pattern matcher against its specification\<close>

text \<open>Whatever the specification's rule ignores, \<open>shouldIgnore\<close> ignores: a path that
  contains a literal pattern, or the text of a glob behind its \<open>*\<close>.\<close>

lemma occurs_then_Nil: "occurs_then [] post s = includes_str s post"
proof (induction s)
  case Nil
  then show ?case by simp
next
  case (Cons c cs)
  show ?case
  proof (cases "prefix post (c # cs)")
    case True
    then show ?thesis by simp
  next
    case False
    then show ?thesis using Cons by auto
  qed
qed

lemma regex_test_includes:
  assumes "\<And>s'. prefix sub s' \<Longrightarrow> match_here r s'"
  shows "includes_str s sub \<Longrightarrow> regex_test r s"
proof (induction s)
  case Nil
  then show ?case using assms [of "[]"] by simp
next
  case (Cons c cs)
  then show ?case using assms [of "c # cs"] by auto
qed

lemma dot_matches_dot: "atom_ok AnyChar CHR ''.''"
  by (simp add: line_terminator_def)

lemma glob_spec_ts: "includes_str s ''.spec.ts'' \<Longrightarrow> regex_test (RegExp ''.*.spec.ts'') s"
proof (rule regex_test_includes)
  fix s' assume "prefix ''.spec.ts'' s'"
  then obtain rest where "s' = ''.spec.ts'' @ rest" by (auto elim: prefixE)
  then show "match_here (RegExp ''.*.spec.ts'') s'"
    by (simp add: parse_atom_def line_terminator_def)
qed

lemma glob_spec_js: "includes_str s ''.spec.js'' \<Longrightarrow> regex_test (RegExp ''.*.spec.js'') s"
proof (rule regex_test_includes)
  fix s' assume "prefix ''.spec.js'' s'"
  then obtain rest where "s' = ''.spec.js'' @ rest" by (auto elim: prefixE)
  then show "match_here (RegExp ''.*.spec.js'') s'"
    by (simp add: parse_atom_def line_terminator_def)
qed

lemma glob_test_ts: "includes_str s ''.test.ts'' \<Longrightarrow> regex_test (RegExp ''.*.test.ts'') s"
proof (rule regex_test_includes)
  fix s' assume "prefix ''.test.ts'' s'"
  then obtain rest where "s' = ''.test.ts'' @ rest" by (auto elim: prefixE)
  then show "match_here (RegExp ''.*.test.ts'') s'"
    by (simp add: parse_atom_def line_terminator_def)
qed

lemma glob_test_js: "includes_str s ''.test.js'' \<Longrightarrow> regex_test (RegExp ''.*.test.js'') s"
proof (rule regex_test_includes)
  fix s' assume "prefix ''.test.js'' s'"
  then obtain rest where "s' = ''.test.js'' @ rest" by (auto elim: prefixE)
  then show "match_here (RegExp ''.*.test.js'') s'"
    by (simp add: parse_atom_def line_terminator_def)
qed

lemma literal_rule:
  assumes "\<not> includes_str pattern ''*''"
  shows "pattern_matches path pattern = spec_rule_matches path pattern"
  using assms by (simp add: pattern_matches_def spec_rule_matches_def)

lemma glob_rule:
  assumes star: "includes_str pattern ''*''"
    and split: "takeWhile (\<lambda>c. c \<noteq> CHR ''*'') pattern = []"
    and re: "replace pattern ''*'' ''.*'' = CHR ''.'' # pattern"
    and sound: "\<And>s. includes_str s (tl pattern) \<Longrightarrow> regex_test (RegExp (CHR ''.'' # pattern)) s"
  shows "spec_rule_matches path pattern \<Longrightarrow> pattern_matches path pattern"
proof -
  assume "spec_rule_matches path pattern"
  then have "occurs_then [] (tl (dropWhile (\<lambda>c. c \<noteq> CHR ''*'') pattern)) path"
    using star split by (simp add: spec_rule_matches_def spec_glob_match_def)
  moreover have "dropWhile (\<lambda>c. c \<noteq> CHR ''*'') pattern = pattern"
    using takeWhile_dropWhile_id [of "\<lambda>c. c \<noteq> CHR ''*''" pattern] split by simp
  ultimately have "includes_str path (tl pattern)"
    by (simp add: occurs_then_Nil)
  then show ?thesis
    using star re sound by (simp add: pattern_matches_def)
qed

lemma literal_refines:
  "\<not> includes_str pattern ''*'' \<Longrightarrow>
     spec_rule_matches path pattern \<longrightarrow> pattern_matches path pattern"
  by (simp add: literal_rule)

lemma spec_ts_refines:
  "spec_rule_matches path ''*.spec.ts'' \<longrightarrow> pattern_matches path ''*.spec.ts''"
proof (rule impI, rule glob_rule)
  show "includes_str ''*.spec.ts'' ''*''" by simp
  show "takeWhile (\<lambda>c. c \<noteq> CHR ''*'') ''*.spec.ts'' = []" by simp
  show "replace ''*.spec.ts'' ''*'' ''.*'' = CHR ''.'' # ''*.spec.ts''" by simp
  show "includes_str s (tl ''*.spec.ts'') \<Longrightarrow> regex_test (RegExp (CHR ''.'' # ''*.spec.ts'')) s"
    for s using glob_spec_ts [of s] by (simp only: list.sel)
qed

lemma spec_js_refines:
  "spec_rule_matches path ''*.spec.js'' \<longrightarrow> pattern_matches path ''*.spec.js''"
proof (rule impI, rule glob_rule)
  show "includes_str ''*.spec.js'' ''*''" by simp
  show "takeWhile (\<lambda>c. c \<noteq> CHR ''*'') ''*.spec.js'' = []" by simp
  show "replace ''*.spec.js'' ''*'' ''.*'' = CHR ''.'' # ''*.spec.js''" by simp
  show "includes_str s (tl ''*.spec.js'') \<Longrightarrow> regex_test (RegExp (CHR ''.'' # ''*.spec.js'')) s"
    for s using glob_spec_js [of s] by (simp only: list.sel)
qed

lemma test_ts_refines:
  "spec_rule_matches path ''*.test.ts'' \<longrightarrow> pattern_matches path ''*.test.ts''"
proof (rule impI, rule glob_rule)
  show "includes_str ''*.test.ts'' ''*''" by simp
  show "takeWhile (\<lambda>c. c \<noteq> CHR ''*'') ''*.test.ts'' = []" by simp
  show "replace ''*.test.ts'' ''*'' ''.*'' = CHR ''.'' # ''*.test.ts''" by simp
  show "includes_str s (tl ''*.test.ts'') \<Longrightarrow> regex_test (RegExp (CHR ''.'' # ''*.test.ts'')) s"
    for s using glob_test_ts [of s] by (simp only: list.sel)
qed

lemma test_js_refines:
  "spec_rule_matches path ''*.test.js'' \<longrightarrow> pattern_matches path ''*.test.js''"
proof (rule impI, rule glob_rule)
  show "includes_str ''*.test.js'' ''*''" by simp
  show "takeWhile (\<lambda>c. c \<noteq> CHR ''*'') ''*.test.js'' = []" by simp
  show "replace ''*.test.js'' ''*'' ''.*'' = CHR ''.'' # ''*.test.js''" by simp
  show "includes_str s (tl ''*.test.js'') \<Longrightarrow> regex_test (RegExp (CHR ''.'' # ''*.test.js'')) s"
    for s using glob_test_js [of s] by (simp only: list.sel)
qed

lemma rule_refines:
  "list_all (\<lambda>pattern. spec_rule_matches path pattern \<longrightarrow> pattern_matches path pattern)
     IGNORED_PATTERNS"
  unfolding IGNORED_PATTERNS_def list.pred_inject
proof (intro conjI TrueI)
  show "spec_rule_matches path ''node_modules'' \<longrightarrow> pattern_matches path ''node_modules''"
    by (rule literal_refines) simp
  show "spec_rule_matches path ''dist'' \<longrightarrow> pattern_matches path ''dist''"
    by (rule literal_refines) simp
  show "spec_rule_matches path ''.git'' \<longrightarrow> pattern_matches path ''.git''"
    by (rule literal_refines) simp
  show "spec_rule_matches path ''.nx'' \<longrightarrow> pattern_matches path ''.nx''"
    by (rule literal_refines) simp
  show "spec_rule_matches path ''tmp'' \<longrightarrow> pattern_matches path ''tmp''"
    by (rule literal_refines) simp
  show "spec_rule_matches path ''.angular'' \<longrightarrow> pattern_matches path ''.angular''"
    by (rule literal_refines) simp
  show "spec_rule_matches path ''.cache'' \<longrightarrow> pattern_matches path ''.cache''"
    by (rule literal_refines) simp
  show "spec_rule_matches path ''.DS_Store'' \<longrightarrow> pattern_matches path ''.DS_Store''"
    by (rule literal_refines) simp
  show "spec_rule_matches path ''*.spec.ts'' \<longrightarrow> pattern_matches path ''*.spec.ts''"
    by (rule spec_ts_refines)
  show "spec_rule_matches path ''*.spec.js'' \<longrightarrow> pattern_matches path ''*.spec.js''"
    by (rule spec_js_refines)
  show "spec_rule_matches path ''*.test.ts'' \<longrightarrow> pattern_matches path ''*.test.ts''"
    by (rule test_ts_refines)
  show "spec_rule_matches path ''*.test.js'' \<longrightarrow> pattern_matches path ''*.test.js''"
    by (rule test_js_refines)
  show "list_all (\<lambda>pattern. spec_rule_matches path pattern \<longrightarrow> pattern_matches path pattern) []"
    by simp
qed

lemma list_ex_mono_all:
  "list_all (\<lambda>x. P x \<longrightarrow> Q x) xs \<Longrightarrow> list_ex P xs \<Longrightarrow> list_ex Q xs"
  by (induction xs) auto

lemma spec_ignored_is_ignored: "spec_shouldIgnore path \<Longrightarrow> shouldIgnore path"
  unfolding spec_shouldIgnore_def shouldIgnore_def
  by (rule list_ex_mono_all [OF rule_refines])

text \<open>C5: the converse fails. The dots of a glob are not escaped when it is turned
  into a regular expression, so they match any character: \<open>api-spec.ts\<close> contains no
  literal pattern and matches none of the globs, and \<open>shouldIgnore\<close> returns true.\<close>

theorem shouldIgnore_api_spec_ts:
  "shouldIgnore ''api-spec.ts'' \<and> \<not> spec_shouldIgnore ''api-spec.ts''"
  by (simp add: shouldIgnore_def spec_shouldIgnore_def IGNORED_PATTERNS_def pattern_matches_def
        spec_rule_matches_def spec_glob_match_def parse_atom_def line_terminator_def)

end
